theory Spec2Isabelle
  imports Complex_Main
begin

text \<open>
  A model of the decoders of TractView for the three tractography formats TRK, TCK and TRX,
  of their shared data model and of the two utilities that follow a decode, stride
  sampling and the bounding box; and the properties of them that are proved. A function
  of the source keeps its name; where two modules use one name (\<open>parseHeader\<close>,
  \<open>parseStreamlines\<close>) the name carries the format as a prefix.
\<close>

section \<open>JavaScript numbers and arrays\<close>

text \<open>
  A JavaScript \<open>number\<close>: a finite value, one of the two infinities, or NaN. Finite values
  are carried as exact reals: rounding to the nearest double, overflow to an infinity and
  the sign of zero are left out of the model. Comparisons with NaN are false, and
  arithmetic follows IEEE 754 on the special values.
\<close>

datatype jsnum = NaN | NegInf | Fin real | PosInf

fun jlt :: "jsnum \<Rightarrow> jsnum \<Rightarrow> bool" where
  "jlt NaN _ = False"
| "jlt _ NaN = False"
| "jlt NegInf NegInf = False"
| "jlt NegInf _ = True"
| "jlt (Fin a) (Fin b) = (a < b)"
| "jlt (Fin a) PosInf = True"
| "jlt (Fin a) NegInf = False"
| "jlt PosInf _ = False"

fun jle :: "jsnum \<Rightarrow> jsnum \<Rightarrow> bool" where
  "jle NaN _ = False"
| "jle _ NaN = False"
| "jle NegInf _ = True"
| "jle (Fin a) (Fin b) = (a \<le> b)"
| "jle (Fin a) PosInf = True"
| "jle (Fin a) NegInf = False"
| "jle PosInf PosInf = True"
| "jle PosInf _ = False"

text \<open>\<open>Math.min\<close> and \<open>Math.max\<close>: NaN when an argument is NaN.\<close>

fun jmin :: "jsnum \<Rightarrow> jsnum \<Rightarrow> jsnum" where
  "jmin NaN _ = NaN"
| "jmin _ NaN = NaN"
| "jmin a b = (if jlt b a then b else a)"

fun jmax :: "jsnum \<Rightarrow> jsnum \<Rightarrow> jsnum" where
  "jmax NaN _ = NaN"
| "jmax _ NaN = NaN"
| "jmax a b = (if jlt a b then b else a)"

fun jneg :: "jsnum \<Rightarrow> jsnum" where
  "jneg NaN = NaN"
| "jneg NegInf = PosInf"
| "jneg (Fin a) = Fin (- a)"
| "jneg PosInf = NegInf"

fun jadd :: "jsnum \<Rightarrow> jsnum \<Rightarrow> jsnum" where
  "jadd NaN _ = NaN"
| "jadd _ NaN = NaN"
| "jadd (Fin a) (Fin b) = Fin (a + b)"
| "jadd (Fin a) b = b"
| "jadd a (Fin b) = a"
| "jadd a b = (if a = b then a else NaN)"

definition jsub :: "jsnum \<Rightarrow> jsnum \<Rightarrow> jsnum" where
  "jsub a b = jadd a (jneg b)"

text \<open>The sign of a number that is not NaN: \<open>-1\<close>, \<open>0\<close> or \<open>1\<close>.\<close>

fun jsgn :: "jsnum \<Rightarrow> int" where
  "jsgn NaN = 0"
| "jsgn NegInf = - 1"
| "jsgn (Fin a) = (if a < 0 then - 1 else if a = 0 then 0 else 1)"
| "jsgn PosInf = 1"

definition jinf :: "int \<Rightarrow> jsnum" where
  "jinf s = (if s < 0 then NegInf else PosInf)"

fun jmul :: "jsnum \<Rightarrow> jsnum \<Rightarrow> jsnum" where
  "jmul NaN _ = NaN"
| "jmul _ NaN = NaN"
| "jmul (Fin a) (Fin b) = Fin (a * b)"
| "jmul a b = (if jsgn a * jsgn b = 0 then NaN else jinf (jsgn a * jsgn b))"

text \<open>Division; a zero divisor counts as \<open>+0\<close>.\<close>

fun jdiv :: "jsnum \<Rightarrow> jsnum \<Rightarrow> jsnum" where
  "jdiv NaN _ = NaN"
| "jdiv _ NaN = NaN"
| "jdiv (Fin a) (Fin b) =
     (if b = 0 then (if a = 0 then NaN else jinf (jsgn (Fin a))) else Fin (a / b))"
| "jdiv (Fin a) b = Fin 0"
| "jdiv a (Fin b) = jinf (jsgn a * (if b < 0 then - 1 else 1))"
| "jdiv a b = NaN"

fun jceil :: "jsnum \<Rightarrow> jsnum" where
  "jceil (Fin a) = Fin (of_int \<lceil>a\<rceil>)"
| "jceil a = a"

fun jsqrt :: "jsnum \<Rightarrow> jsnum" where
  "jsqrt NaN = NaN"
| "jsqrt NegInf = NaN"
| "jsqrt (Fin a) = (if a < 0 then NaN else Fin (sqrt a))"
| "jsqrt PosInf = PosInf"

fun isNaN :: "jsnum \<Rightarrow> bool" where
  "isNaN NaN = True"
| "isNaN _ = False"

fun isFinite :: "jsnum \<Rightarrow> bool" where
  "isFinite (Fin _) = True"
| "isFinite _ = False"

definition jnat :: "nat \<Rightarrow> jsnum" where
  "jnat n = Fin (of_nat n)"

definition jint :: "int \<Rightarrow> jsnum" where
  "jint n = Fin (of_int n)"

text \<open>Truncation towards zero, as \<open>ToIntegerOrInfinity\<close> does on a finite value.\<close>

definition trunc :: "real \<Rightarrow> int" where
  "trunc r = (if r < 0 then \<lceil>r\<rceil> else \<lfloor>r\<rfloor>)"

text \<open>
  The position an argument of \<open>slice\<close> stands for in an array of length \<open>len\<close>: NaN is 0,
  a negative index counts from the end, and the result is clamped to \<open>0..len\<close>.
\<close>

fun relIndex :: "nat \<Rightarrow> jsnum \<Rightarrow> nat" where
  "relIndex len NaN = 0"
| "relIndex len NegInf = 0"
| "relIndex len PosInf = len"
| "relIndex len (Fin r) =
     (if trunc r < 0 then nat (max (int len + trunc r) 0) else min (nat (trunc r)) len)"

definition js_slice :: "'a list \<Rightarrow> jsnum \<Rightarrow> jsnum \<Rightarrow> 'a list" where
  "js_slice xs start end =
     (let k = relIndex (length xs) start; final = relIndex (length xs) end
      in take (final - k) (drop k xs))"

text \<open>
  Reading \<open>xs[i]\<close>: the element when \<open>i\<close> is an integer in \<open>0..length - 1\<close>, otherwise
  \<open>undefined\<close>, which is \<open>None\<close> here.
\<close>

fun js_index :: "'a list \<Rightarrow> jsnum \<Rightarrow> 'a option" where
  "js_index xs (Fin r) =
     (if 0 \<le> r \<and> r = of_int \<lfloor>r\<rfloor> \<and> nat \<lfloor>r\<rfloor> < length xs then Some (xs ! nat \<lfloor>r\<rfloor>) else None)"
| "js_index xs _ = None"

section \<open>Stride sampling (trkParser.ts)\<close>

record 'a sampling =
  sampled :: "'a option list"
  skipFactor :: jsnum
  totalCount :: nat

text \<open>
  The \<open>for\<close> loop of \<open>applySkipSampling\<close>: \<open>i\<close> is the loop variable, \<open>acc\<close> the
  array \<open>sampled\<close>. A run that never leaves the loop has the value \<open>None\<close>.
\<close>

partial_function (option) sampleLoop ::
  "'a list \<Rightarrow> jsnum \<Rightarrow> jsnum \<Rightarrow> jsnum \<Rightarrow> 'a option list \<Rightarrow> 'a option list option" where
  "sampleLoop xs maxCount sf i acc =
     (if jlt i (jnat (length xs)) \<and> jlt (jnat (length acc)) maxCount
      then sampleLoop xs maxCount sf (jadd i sf) (acc @ [js_index xs i])
      else Some acc)"

definition applySkipSampling :: "'a list \<Rightarrow> jsnum \<Rightarrow> jsnum \<Rightarrow> 'a sampling option" where
  "applySkipSampling streamlines maxCount skipThreshold =
     (let total = length streamlines in
      if jle (jnat total) skipThreshold
      then Some \<lparr>sampled = map Some (js_slice streamlines (Fin 0) (jmin maxCount (jnat total))),
                 skipFactor = Fin 1, totalCount = total\<rparr>
      else
        let targetCount = jmin maxCount (jnat total);
            sf = jceil (jdiv (jnat total) targetCount)
        in case sampleLoop streamlines maxCount sf (Fin 0) [] of
             None \<Rightarrow> None
           | Some acc \<Rightarrow> Some \<lparr>sampled = acc, skipFactor = sf, totalCount = total\<rparr>)"

section \<open>Errors, byte buffers and DataView\<close>

text \<open>
  Every \<open>throw\<close> of the three parsers and every exception of the platform that they can
  meet is a value of \<open>error\<close>; a function that can throw returns \<open>error + 'a\<close>.
\<close>

datatype trx_field =
  NotAnObject | VoxelToRasmm | VoxelToRasmmRow | Dimensions | NbStreamlines | NbVertices

datatype error =
    FileTooLarge
  | RangeError
  | MissingTrackId
  | BadNScalars int
  | BadNProperties int
  | BadDimension nat int
  | BadVoxelSize nat jsnum
  | BadHdrSize int
  | NoEndMarker
  | MissingMrtrixId
  | UnsupportedDatatype string
  | InvalidDatatypeConfig string
  | StreamlineTooLong
  | MissingHeaderJson
  | JsonSyntaxError
  | InvalidTrxHeader trx_field
  | MissingPositions
  | MissingOffsets
  | UnsupportedPositionsType string
  | UnsupportedOffsetsType string
  | InflateError

text \<open>A buffer is a list of bytes; a byte is a \<open>char\<close>, whose value is \<open>bval\<close>.\<close>

type_synonym bytes = "char list"

definition bval :: "char \<Rightarrow> nat" where
  "bval c = of_char c"

definition MAX_FILE_SIZE :: nat where
  "MAX_FILE_SIZE = 500 * 1024 * 1024"

fun uintLE :: "bytes \<Rightarrow> nat" where
  "uintLE [] = 0"
| "uintLE (b # bs) = bval b + 256 * uintLE bs"

text \<open>The \<open>n\<close> bytes at \<open>off\<close> as an unsigned integer, in the byte order asked for.\<close>

definition uintAt :: "nat \<Rightarrow> bool \<Rightarrow> bytes \<Rightarrow> nat \<Rightarrow> nat" where
  "uintAt n le buf off = (let bs = take n (drop off buf) in uintLE (if le then bs else rev bs))"

definition toSigned :: "nat \<Rightarrow> nat \<Rightarrow> int" where
  "toSigned bits v = (if 2 ^ (bits - 1) \<le> v then int v - 2 ^ bits else int v)"

definition pow2 :: "int \<Rightarrow> real" where
  "pow2 k = (if 0 \<le> k then 2 ^ nat k else 1 / 2 ^ nat (- k))"

text \<open>The value of an IEEE 754 single and of a double, from its bit pattern.\<close>

definition float32OfBits :: "nat \<Rightarrow> jsnum" where
  "float32OfBits v =
     (let s = v div 2 ^ 31 mod 2; e = v div 2 ^ 23 mod 256; m = v mod 2 ^ 23;
          sg = (if s = 1 then - 1 else 1)
      in if e = 255 then (if m = 0 then (if s = 1 then NegInf else PosInf) else NaN)
         else if e = 0 then Fin (sg * real m * pow2 (- 149))
         else Fin (sg * real (2 ^ 23 + m) * pow2 (int e - 150)))"

definition float64OfBits :: "nat \<Rightarrow> jsnum" where
  "float64OfBits v =
     (let s = v div 2 ^ 63 mod 2; e = v div 2 ^ 52 mod 2048; m = v mod 2 ^ 52;
          sg = (if s = 1 then - 1 else 1)
      in if e = 2047 then (if m = 0 then (if s = 1 then NegInf else PosInf) else NaN)
         else if e = 0 then Fin (sg * real m * pow2 (- 1074))
         else Fin (sg * real (2 ^ 52 + m) * pow2 (int e - 1075)))"

text \<open>
  The getters of \<open>DataView\<close>: a read that does not lie inside the buffer throws a
  \<open>RangeError\<close>. Offsets are integers wherever the parsers reach a getter.
\<close>

definition inRange :: "bytes \<Rightarrow> int \<Rightarrow> nat \<Rightarrow> bool" where
  "inRange buf off n = (0 \<le> off \<and> off + int n \<le> int (length buf))"

definition getUint16 :: "bytes \<Rightarrow> int \<Rightarrow> bool \<Rightarrow> error + nat" where
  "getUint16 buf off le =
     (if inRange buf off 2 then Inr (uintAt 2 le buf (nat off)) else Inl RangeError)"

definition getInt16 :: "bytes \<Rightarrow> int \<Rightarrow> bool \<Rightarrow> error + int" where
  "getInt16 buf off le =
     (if inRange buf off 2 then Inr (toSigned 16 (uintAt 2 le buf (nat off))) else Inl RangeError)"

definition getUint32 :: "bytes \<Rightarrow> int \<Rightarrow> bool \<Rightarrow> error + nat" where
  "getUint32 buf off le =
     (if inRange buf off 4 then Inr (uintAt 4 le buf (nat off)) else Inl RangeError)"

definition getInt32 :: "bytes \<Rightarrow> int \<Rightarrow> bool \<Rightarrow> error + int" where
  "getInt32 buf off le =
     (if inRange buf off 4 then Inr (toSigned 32 (uintAt 4 le buf (nat off))) else Inl RangeError)"

definition getBigUint64 :: "bytes \<Rightarrow> int \<Rightarrow> bool \<Rightarrow> error + int" where
  "getBigUint64 buf off le =
     (if inRange buf off 8 then Inr (int (uintAt 8 le buf (nat off))) else Inl RangeError)"

definition getBigInt64 :: "bytes \<Rightarrow> int \<Rightarrow> bool \<Rightarrow> error + int" where
  "getBigInt64 buf off le =
     (if inRange buf off 8 then Inr (toSigned 64 (uintAt 8 le buf (nat off))) else Inl RangeError)"

definition getFloat32 :: "bytes \<Rightarrow> int \<Rightarrow> bool \<Rightarrow> error + jsnum" where
  "getFloat32 buf off le =
     (if inRange buf off 4 then Inr (float32OfBits (uintAt 4 le buf (nat off))) else Inl RangeError)"

definition getFloat64 :: "bytes \<Rightarrow> int \<Rightarrow> bool \<Rightarrow> error + jsnum" where
  "getFloat64 buf off le =
     (if inRange buf off 8 then Inr (float64OfBits (uintAt 8 le buf (nat off))) else Inl RangeError)"

text \<open>Running a fallible function over a list, stopping at the first error.\<close>

fun traverse :: "('a \<Rightarrow> error + 'b) \<Rightarrow> 'a list \<Rightarrow> error + 'b list" where
  "traverse f [] = Inr []"
| "traverse f (x # xs) =
     (case f x of
        Inl e \<Rightarrow> Inl e
      | Inr y \<Rightarrow> (case traverse f xs of Inl e \<Rightarrow> Inl e | Inr ys \<Rightarrow> Inr (y # ys)))"

section \<open>The shared data model (streamlineTypes.ts)\<close>

text \<open>
  A \<open>Float32Array\<close> is the list of its values. Storing a number into one rounds it to
  single precision; like all rounding this is left out of the model.
\<close>

record streamline =
  points :: "jsnum list"
  numPoints :: jsnum
  scalars :: "jsnum list list option"
  properties :: "jsnum list option"

datatype TractographyFormat = Trk | Tck | Trx

text \<open>
  The unified header. Its \<open>metadata\<close> member, which no operation of the parsers reads
  back, is not modelled.
\<close>

record TractographyHeader =
  format :: TractographyFormat
  dim :: "int \<times> int \<times> int"
  voxelSize :: "jsnum \<times> jsnum \<times> jsnum"
  nCount :: nat
  version :: int

record TractographyData =
  header :: TractographyHeader
  streamlines :: "streamline list"

definition DEFAULT_DIMENSIONS :: "int \<times> int \<times> int" where
  "DEFAULT_DIMENSIONS = (0, 0, 0)"

definition DEFAULT_VOXEL_SIZE :: "jsnum \<times> jsnum \<times> jsnum" where
  "DEFAULT_VOXEL_SIZE = (Fin 1, Fin 1, Fin 1)"

section \<open>The TRK parser (trkParser.ts)\<close>

text \<open>
  The fields of the 1000-byte header that the parser reads back. The members that share a
  name with the unified header carry the prefix \<open>trk_\<close>. The other members (origin, the
  channel and property names, the transform, the reserved and padding bytes, the
  orientation, the invert and swap flags) are decoded by \<open>parseHeader\<close> and never read.
\<close>

record TrkHeader =
  idString :: string
  trk_dim :: "int \<times> int \<times> int"
  trk_voxelSize :: "jsnum \<times> jsnum \<times> jsnum"
  nScalars :: int
  nProperties :: int
  trk_nCount :: int
  trk_version :: int
  hdrSize :: int

record TrkData =
  trk_header :: TrkHeader
  trk_streamlines :: "streamline list"

definition validateTrkHeader :: "TrkHeader \<Rightarrow> error + unit" where
  "validateTrkHeader h =
     (case trk_dim h of (d0, d1, d2) \<Rightarrow>
      case trk_voxelSize h of (v0, v1, v2) \<Rightarrow>
        if nScalars h < 0 \<or> nScalars h > 10 then Inl (BadNScalars (nScalars h))
        else if nProperties h < 0 \<or> nProperties h > 10 then Inl (BadNProperties (nProperties h))
        else if d0 < 0 \<or> d0 > 65535 then Inl (BadDimension 0 d0)
        else if d1 < 0 \<or> d1 > 65535 then Inl (BadDimension 1 d1)
        else if d2 < 0 \<or> d2 > 65535 then Inl (BadDimension 2 d2)
        else if \<not> isFinite v0 \<or> jlt v0 (Fin 0) then Inl (BadVoxelSize 0 v0)
        else if \<not> isFinite v1 \<or> jlt v1 (Fin 0) then Inl (BadVoxelSize 1 v1)
        else if \<not> isFinite v2 \<or> jlt v2 (Fin 0) then Inl (BadVoxelSize 2 v2)
        else if hdrSize h \<noteq> 1000 then Inl (BadHdrSize (hdrSize h))
        else Inr ())"

text \<open>
  \<open>parseHeader\<close> of trkParser.ts. All of its reads lie in bytes 0 to 999 and the last
  one, of \<open>hdrSize\<close>, ends at byte 999; each of them throws a \<open>RangeError\<close> on a shorter
  buffer, so a buffer of fewer than 1000 bytes fails and a longer one does not.
\<close>

definition trk_parseHeader :: "bytes \<Rightarrow> error + TrkHeader" where
  "trk_parseHeader buf =
     (if length buf < 1000 then Inl RangeError
      else Inr \<lparr>
        idString = filter (\<lambda>c. c \<noteq> CHR 0x00) (take 6 buf),
        trk_dim = (toSigned 16 (uintAt 2 True buf 6), toSigned 16 (uintAt 2 True buf 8),
                   toSigned 16 (uintAt 2 True buf 10)),
        trk_voxelSize = (float32OfBits (uintAt 4 True buf 12), float32OfBits (uintAt 4 True buf 16),
                         float32OfBits (uintAt 4 True buf 20)),
        nScalars = toSigned 16 (uintAt 2 True buf 36),
        nProperties = toSigned 16 (uintAt 2 True buf 238),
        trk_nCount = toSigned 32 (uintAt 4 True buf 988),
        trk_version = toSigned 32 (uintAt 4 True buf 992),
        hdrSize = toSigned 32 (uintAt 4 True buf 996)\<rparr>)"

text \<open>
  One streamline record of \<open>n\<close> points whose first point is at \<open>off\<close>. The source reads
  each point's coordinates and scalars in turn, then the properties; every failure is a
  \<open>RangeError\<close>, so the order of the reads does not show in the result. \<open>recordSize\<close> is
  the number of bytes by which these reads advance the offset.
\<close>

definition pointStride :: "TrkHeader \<Rightarrow> int" where
  "pointStride h = 12 + 4 * max 0 (nScalars h)"

definition recordSize :: "TrkHeader \<Rightarrow> int \<Rightarrow> int" where
  "recordSize h n = n * pointStride h + 4 * max 0 (nProperties h)"

definition readStreamline :: "bytes \<Rightarrow> TrkHeader \<Rightarrow> int \<Rightarrow> int \<Rightarrow> error + streamline" where
  "readStreamline buf h off n =
     (case traverse (\<lambda>k. getFloat32 buf (off + int (k div 3) * pointStride h + 4 * int (k mod 3)) True)
             [0..<3 * nat n] of
        Inl e \<Rightarrow> Inl e
      | Inr pts \<Rightarrow>
     (case traverse (\<lambda>s. traverse (\<lambda>i. getFloat32 buf (off + int i * pointStride h + 12 + 4 * int s) True)
                            [0..<nat n])
             [0..<nat (nScalars h)] of
        Inl e \<Rightarrow> Inl e
      | Inr scs \<Rightarrow>
     (case traverse (\<lambda>p. getFloat32 buf (off + n * pointStride h + 4 * int p) True)
             [0..<nat (nProperties h)] of
        Inl e \<Rightarrow> Inl e
      | Inr props \<Rightarrow>
          Inr \<lparr>points = pts, numPoints = jint n,
               scalars = (if scs \<noteq> [] then Some scs else None),
               properties = (if nProperties h > 0 then Some props else None)\<rparr>)))"

text \<open>
  The \<open>while\<close> loop of \<open>parseStreamlines\<close>: \<open>off\<close> is the offset and \<open>acc\<close> the array
  \<open>streamlines\<close>. \<open>maxStreamlines\<close> is \<open>nCount\<close> when that is positive and Infinity
  otherwise.
\<close>

function trk_loop :: "bytes \<Rightarrow> TrkHeader \<Rightarrow> int \<Rightarrow> streamline list \<Rightarrow> error + streamline list" where
  "trk_loop buf h off acc =
     (if off < int (length buf) \<and> (trk_nCount h > 0 \<longrightarrow> int (length acc) < trk_nCount h) then
        if off + 4 > int (length buf) then Inr acc
        else case getInt32 buf off True of
          Inl e \<Rightarrow> Inl e
        | Inr n \<Rightarrow>
            if n \<le> 0 \<or> n > 100000 then Inr acc
            else if off + 4 + (n * (4 * (3 + nScalars h)) + 4 * nProperties h) > int (length buf)
            then Inr acc
            else case readStreamline buf h (off + 4) n of
              Inl e \<Rightarrow> Inl e
            | Inr sl \<Rightarrow> trk_loop buf h (off + 4 + recordSize h n) (acc @ [sl])
      else Inr acc)"
  by pat_completeness auto
termination
proof (relation "measure (\<lambda>(buf, h, off, acc). nat (int (length buf) - off))", goal_cases)
  case 1
  show ?case by simp
next
  case (2 buf h off acc n sl)
  then have "0 < n" by simp
  then have "0 < n * pointStride h" by (simp add: pointStride_def)
  then have "0 < recordSize h n" by (simp add: recordSize_def)
  with 2 show ?case by simp
qed

declare trk_loop.simps [simp del]

definition trk_parseStreamlines :: "bytes \<Rightarrow> TrkHeader \<Rightarrow> error + streamline list" where
  "trk_parseStreamlines buf h = trk_loop buf h (if hdrSize h = 0 then 1000 else hdrSize h) []"

definition parseTrkFile :: "bytes \<Rightarrow> error + TrkData" where
  "parseTrkFile buf =
     (if length buf > MAX_FILE_SIZE then Inl FileTooLarge
      else case trk_parseHeader buf of
        Inl e \<Rightarrow> Inl e
      | Inr h \<Rightarrow>
          if take 5 (idString h) \<noteq> ''TRACK'' then Inl MissingTrackId
          else case validateTrkHeader h of
            Inl e \<Rightarrow> Inl e
          | Inr _ \<Rightarrow>
              (case trk_parseStreamlines buf h of
                 Inl e \<Rightarrow> Inl e
               | Inr sl \<Rightarrow> Inr \<lparr>trk_header = h, trk_streamlines = sl\<rparr>))"

section \<open>Strings\<close>

text \<open>
  \<open>TextDecoder('ascii')\<close> decodes windows-1252, one character for each byte, so a decoded
  text is the list of its bytes. White space is what \<open>trim\<close>, \<open>\s\<close> and \<open>parseInt\<close> skip:
  tab, line feed, vertical tab, form feed, carriage return, space and the no-break space.
\<close>

definition isSpace :: "char \<Rightarrow> bool" where
  "isSpace c = (bval c \<in> {9, 10, 11, 12, 13, 32, 160})"

definition trim :: "string \<Rightarrow> string" where
  "trim s = rev (dropWhile isSpace (rev (dropWhile isSpace s)))"

text \<open>
  \<open>toLowerCase\<close> on the characters of windows-1252: the letters A to Z, the capital
  letters of Latin-1, and the four capitals in the range 0x80 to 0x9F.
\<close>

definition lowerChar :: "char \<Rightarrow> char" where
  "lowerChar c =
     (let n = bval c in
      if (65 \<le> n \<and> n \<le> 90) \<or> (192 \<le> n \<and> n \<le> 222 \<and> n \<noteq> 215) then char_of (n + 32)
      else if n = 138 then CHR 0x9A
      else if n = 140 then CHR 0x9C
      else if n = 142 then CHR 0x9E
      else if n = 159 then CHR 0xFF
      else c)"

definition toLowerCase :: "string \<Rightarrow> string" where
  "toLowerCase s = map lowerChar s"

text \<open>\<open>hay.includes(needle)\<close>.\<close>

fun includesStr :: "string \<Rightarrow> string \<Rightarrow> bool" where
  "includesStr needle [] = (needle = [])"
| "includesStr needle (c # cs) = (take (length needle) (c # cs) = needle \<or> includesStr needle cs)"

definition startsWith :: "string \<Rightarrow> string \<Rightarrow> bool" where
  "startsWith s p = (take (length p) s = p)"

definition endsWith :: "string \<Rightarrow> string \<Rightarrow> bool" where
  "endsWith s p = (length p \<le> length s \<and> drop (length s - length p) s = p)"

text \<open>
  \<open>text.split(/\r?\n/)\<close>: a line ends at a line feed, and a carriage return just before
  the line feed belongs to the separator.
\<close>

definition stripCR :: "string \<Rightarrow> string" where
  "stripCR s = (if s \<noteq> [] \<and> last s = CHR 0x0D then butlast s else s)"

fun splitLinesAcc :: "string \<Rightarrow> string \<Rightarrow> string list" where
  "splitLinesAcc cur [] = [cur]"
| "splitLinesAcc cur (c # cs) =
     (if c = CHR 0x0A then stripCR cur # splitLinesAcc [] cs else splitLinesAcc (cur @ [c]) cs)"

definition splitLines :: "string \<Rightarrow> string list" where
  "splitLines s = splitLinesAcc [] s"

text \<open>\<open>text.split(/\s+/)\<close>: the pieces between the runs of white space.\<close>

function splitWsAcc :: "string \<Rightarrow> string \<Rightarrow> string list" where
  "splitWsAcc cur [] = [cur]"
| "splitWsAcc cur (c # cs) =
     (if isSpace c then cur # splitWsAcc [] (dropWhile isSpace cs) else splitWsAcc (cur @ [c]) cs)"
  by pat_completeness auto
termination
proof (relation "measure (\<lambda>(cur, s). length s)", goal_cases)
  case 1
  show ?case by simp
next
  case (2 cur c cs)
  have "length (dropWhile isSpace cs) \<le> length cs" by (rule length_dropWhile_le)
  then show ?case by simp
next
  case (3 cur c cs)
  show ?case by simp
qed

definition splitWs :: "string \<Rightarrow> string list" where
  "splitWs s = splitWsAcc [] s"

text \<open>
  \<open>parseInt(s, 10)\<close>: white space, an optional sign, then the longest run of decimal
  digits; \<open>None\<close> is NaN. The value is exact (a double rounds it beyond \<open>2^53\<close>).
\<close>

definition isDigit :: "char \<Rightarrow> bool" where
  "isDigit c = (48 \<le> bval c \<and> bval c \<le> 57)"

definition digitsVal :: "string \<Rightarrow> nat" where
  "digitsVal ds = foldl (\<lambda>n c. 10 * n + (bval c - 48)) 0 ds"

definition parseInt :: "string \<Rightarrow> int option" where
  "parseInt s =
     (let t = dropWhile isSpace s;
          neg = (t \<noteq> [] \<and> hd t = CHR ''-'');
          r = (if t \<noteq> [] \<and> (hd t = CHR ''-'' \<or> hd t = CHR ''+'') then tl t else t);
          ds = takeWhile isDigit r
      in if ds = [] then None
         else Some (if neg then - int (digitsVal ds) else int (digitsVal ds)))"

section \<open>The TCK parser (tckParser.ts)\<close>

text \<open>
  \<open>DATA_TYPES\<close> is a plain object with four members. Looking a name up in it also finds
  the members that every object inherits from \<open>Object.prototype\<close>: these are truthy, and
  none of them has \<open>bytesPerFloat\<close>, \<open>littleEndian\<close> or \<open>reader\<close>.
\<close>

datatype floatWidth = F32 | F64

datatype dataTypeEntry = Config floatWidth bool | Inherited | Absent

definition objectPrototypeNames :: "string list" where
  "objectPrototypeNames =
     [''constructor'', ''__defineGetter__'', ''__defineSetter__'', ''hasOwnProperty'',
      ''__lookupGetter__'', ''__lookupSetter__'', ''isPrototypeOf'', ''propertyIsEnumerable'',
      ''toString'', ''valueOf'', ''__proto__'', ''toLocaleString'']"

definition DATA_TYPES :: "string \<Rightarrow> dataTypeEntry" where
  "DATA_TYPES name =
     (if name = ''Float32LE'' then Config F32 True
      else if name = ''Float32BE'' then Config F32 False
      else if name = ''Float64LE'' then Config F64 True
      else if name = ''Float64BE'' then Config F64 False
      else if name \<in> set objectPrototypeNames then Inherited
      else Absent)"

fun bytesPerFloat :: "floatWidth \<Rightarrow> nat" where
  "bytesPerFloat F32 = 4"
| "bytesPerFloat F64 = 8"

fun reader :: "floatWidth \<Rightarrow> bytes \<Rightarrow> int \<Rightarrow> bool \<Rightarrow> error + jsnum" where
  "reader F32 v off le = getFloat32 v off le"
| "reader F64 v off le = getFloat64 v off le"

text \<open>
  The header. \<open>fileOffset\<close> and \<open>count\<close> hold what \<open>parseInt\<close> gave, \<open>None\<close> being NaN.
  The members \<open>totalCount\<close> and \<open>timestamp\<close>, which nothing reads, are not modelled.
  \<open>metadata\<close> is a plain object: its keys in the order of their first assignment; an
  assignment of a string to the key \<open>__proto__\<close> changes nothing.
\<close>

record TckHeader =
  tck_datatype :: string
  fileOffset :: "int option"
  tck_count :: "int option"
  tck_metadata :: "(string \<times> string) list"

fun assocSet :: "'k \<Rightarrow> 'v \<Rightarrow> ('k \<times> 'v) list \<Rightarrow> ('k \<times> 'v) list" where
  "assocSet k v [] = [(k, v)]"
| "assocSet k v (p # ps) = (if fst p = k then (k, v) # ps else p # assocSet k v ps)"

definition mdSet :: "string \<Rightarrow> string \<Rightarrow> (string \<times> string) list \<Rightarrow> (string \<times> string) list" where
  "mdSet k v md = (if k = ''__proto__'' then md else assocSet k v md)"

text \<open>
  \<open>Object.keys(metadata)[0] || ''\<close>: the keys that are array indices come first, in
  ascending order, then the others in the order of their assignment.
\<close>

definition isArrayIndex :: "string \<Rightarrow> bool" where
  "isArrayIndex k =
     (k \<noteq> [] \<and> list_all isDigit k \<and> (k = ''0'' \<or> hd k \<noteq> CHR ''0'') \<and> digitsVal k < 2 ^ 32 - 1)"

definition firstKey :: "(string \<times> string) list \<Rightarrow> string" where
  "firstKey md =
     (let ks = map fst md; idx = filter isArrayIndex ks
      in if idx \<noteq> [] then arg_min_list digitsVal idx
         else (case ks of [] \<Rightarrow> [] | k # _ \<Rightarrow> k))"

text \<open>A byte of the buffer, \<open>None\<close> where the index is past its end.\<close>

definition byteAt :: "bytes \<Rightarrow> nat \<Rightarrow> char option" where
  "byteAt bs i = (if i < length bs then Some (bs ! i) else None)"

text \<open>
  The search for the end of the header in \<open>parseHeader\<close>: the first \<open>i\<close> with
  \<open>i < maxHeaderSize - 2\<close> where the bytes \<open>E\<close>, \<open>N\<close>, \<open>D\<close> are followed, inside the buffer, by
  a line feed or a carriage return. The result is \<open>headerEnd\<close>, \<open>None\<close> for \<open>-1\<close>.
\<close>

function findEnd :: "bytes \<Rightarrow> nat \<Rightarrow> nat \<Rightarrow> nat option" where
  "findEnd bs maxHeaderSize i =
     (if i + 2 < maxHeaderSize then
        if byteAt bs i = Some (CHR ''E'') \<and> byteAt bs (i + 1) = Some (CHR ''N'') \<and>
           byteAt bs (i + 2) = Some (CHR ''D'') \<and> i + 3 < length bs \<and>
           (byteAt bs (i + 3) = Some (CHR 0x0A) \<or> byteAt bs (i + 3) = Some (CHR 0x0D))
        then Some (if byteAt bs (i + 3) = Some (CHR 0x0D) \<and> byteAt bs (i + 4) = Some (CHR 0x0A)
                   then i + 5 else i + 4)
        else findEnd bs maxHeaderSize (i + 1)
      else None)"
  by pat_completeness auto
termination
  by (relation "measure (\<lambda>(bs, m, i). m - i)") auto

declare findEnd.simps [simp del]

text \<open>The body of the loop over the lines of the header.\<close>

definition headerStep :: "TckHeader \<Rightarrow> string \<Rightarrow> TckHeader" where
  "headerStep st line =
     (if trim line = ''END'' then st
      else if toLowerCase (trim line) = ''mrtrix tracks''
      then st\<lparr>tck_metadata := mdSet ''mrtrix tracks'' ''true'' (tck_metadata st)\<rparr>
      else if CHR '':'' \<notin> set line then st
      else
        let key = toLowerCase (trim (takeWhile (\<lambda>c. c \<noteq> CHR '':'') line));
            val = trim (tl (dropWhile (\<lambda>c. c \<noteq> CHR '':'') line));
            st1 = st\<lparr>tck_metadata := mdSet key val (tck_metadata st)\<rparr>
        in if key = ''datatype'' then st1\<lparr>tck_datatype := val\<rparr>
           else if key = ''file'' then
             (let parts = splitWs val
              in if length parts \<ge> 2 \<and> parts ! 0 = ''.'' then st1\<lparr>fileOffset := parseInt (parts ! 1)\<rparr>
                 else if length parts = 1 then st1\<lparr>fileOffset := parseInt (parts ! 0)\<rparr>
                 else st1)
           else if key = ''count'' then st1\<lparr>tck_count := parseInt val\<rparr>
           else st1)"

definition headerLines :: "bytes \<Rightarrow> nat \<Rightarrow> string list" where
  "headerLines buf headerEnd = filter (\<lambda>line. trim line \<noteq> []) (splitLines (take headerEnd buf))"

definition tck_parseHeader :: "bytes \<Rightarrow> error + TckHeader" where
  "tck_parseHeader buf =
     (case findEnd buf (min (length buf) 10000) 0 of
        None \<Rightarrow> Inl NoEndMarker
      | Some headerEnd \<Rightarrow>
          let st = foldl headerStep
                     \<lparr>tck_datatype = ''Float32LE'', fileOffset = Some (int headerEnd),
                      tck_count = Some 0, tck_metadata = []\<rparr>
                     (headerLines buf headerEnd)
          in if DATA_TYPES (tck_datatype st) = Absent
             then Inl (UnsupportedDatatype (tck_datatype st))
             else Inr st)"

text \<open>
  \<open>{ points: new Float32Array(currentPoints), numPoints: currentPoints.length / 3 }\<close>
\<close>

definition finish :: "jsnum list \<Rightarrow> streamline" where
  "finish cur = \<lparr>points = cur, numPoints = jdiv (jnat (length cur)) (Fin 3), scalars = None,
                 properties = None\<rparr>"

definition pushIfLine :: "jsnum list \<Rightarrow> streamline list \<Rightarrow> streamline list" where
  "pushIfLine cur acc = (if length cur \<ge> 6 then acc @ [finish cur] else acc)"

definition readTriplet :: "floatWidth \<Rightarrow> bool \<Rightarrow> bytes \<Rightarrow> int \<Rightarrow> error + (jsnum \<times> jsnum \<times> jsnum)" where
  "readTriplet w le buf off =
     (case reader w buf off le of
        Inl e \<Rightarrow> Inl e
      | Inr x \<Rightarrow>
     (case reader w buf (off + int (bytesPerFloat w)) le of
        Inl e \<Rightarrow> Inl e
      | Inr y \<Rightarrow>
     (case reader w buf (off + int (bytesPerFloat w) * 2) le of
        Inl e \<Rightarrow> Inl e
      | Inr z \<Rightarrow> Inr (x, y, z))))"

text \<open>
  The \<open>while\<close> loop of \<open>parseStreamlines\<close>, with \<open>cur\<close> for \<open>currentPoints\<close> and \<open>acc\<close>
  for \<open>streamlines\<close>. It returns both, as they are when the loop is left: the statement
  after the loop reads \<open>currentPoints\<close> again.
\<close>

function tck_loop ::
  "bytes \<Rightarrow> floatWidth \<Rightarrow> bool \<Rightarrow> int \<Rightarrow> jsnum list \<Rightarrow> streamline list \<Rightarrow>
     error + (jsnum list \<times> streamline list)" where
  "tck_loop buf w le off cur acc =
     (if off + int (bytesPerFloat w * 3) \<le> int (length buf) then
        case readTriplet w le buf off of
          Inl e \<Rightarrow> Inl e
        | Inr (x, y, z) \<Rightarrow>
            if \<not> isFinite x \<and> \<not> isNaN x then Inr (cur, pushIfLine cur acc)
            else if isNaN x \<or> isNaN y \<or> isNaN z
            then tck_loop buf w le (off + int (bytesPerFloat w * 3)) [] (pushIfLine cur acc)
            else if length (cur @ [x, y, z]) > 300000 then Inl StreamlineTooLong
            else tck_loop buf w le (off + int (bytesPerFloat w * 3)) (cur @ [x, y, z]) acc
      else Inr (cur, acc))"
  by pat_completeness auto
termination
  by (relation "measure (\<lambda>(buf, w, le, off, cur, acc). nat (int (length buf) - off))")
     (auto, (case_tac w, auto)+)

declare tck_loop.simps [simp del]

definition tck_parseStreamlines :: "bytes \<Rightarrow> TckHeader \<Rightarrow> error + streamline list" where
  "tck_parseStreamlines buf h =
     (case DATA_TYPES (tck_datatype h) of
        Absent \<Rightarrow> Inl (InvalidDatatypeConfig (tck_datatype h))
      | Inherited \<Rightarrow> Inr []
      | Config w le \<Rightarrow>
          (case fileOffset h of
             None \<Rightarrow> Inr []
           | Some off \<Rightarrow>
               (case tck_loop buf w le off [] [] of
                  Inl e \<Rightarrow> Inl e
                | Inr (cur, acc) \<Rightarrow> Inr (pushIfLine cur acc))))"

definition hasMagic :: "TckHeader \<Rightarrow> bool" where
  "hasMagic h =
     ((case map_of (tck_metadata h) ''mrtrix tracks'' of None \<Rightarrow> False | Some v \<Rightarrow> v \<noteq> []) \<or>
      includesStr ''mrtrix tracks'' (toLowerCase (firstKey (tck_metadata h))))"

definition parseTckFile :: "bytes \<Rightarrow> error + TractographyData" where
  "parseTckFile buf =
     (if length buf > MAX_FILE_SIZE then Inl FileTooLarge
      else case tck_parseHeader buf of
        Inl e \<Rightarrow> Inl e
      | Inr h \<Rightarrow>
          if \<not> hasMagic h then Inl MissingMrtrixId
          else case tck_parseStreamlines buf h of
            Inl e \<Rightarrow> Inl e
          | Inr sl \<Rightarrow>
              Inr \<lparr>header = \<lparr>format = Tck, dim = DEFAULT_DIMENSIONS,
                              voxelSize = DEFAULT_VOXEL_SIZE, nCount = length sl, version = 1\<rparr>,
                   streamlines = sl\<rparr>)"

section \<open>The TRX parser (trxParser.ts)\<close>

text \<open>
  What \<open>JSON.parse\<close> returns. The members of an object are its own properties, each key
  once.
\<close>

datatype json =
  JNull | JBool bool | JNum jsnum | JStr string | JArr "json list" | JObj "(string \<times> json) list"

record TrxHeader =
  VOXEL_TO_RASMM :: "jsnum list list"
  DIMENSIONS :: "int \<times> int \<times> int"
  NB_STREAMLINES :: nat
  NB_VERTICES :: nat

fun jprop :: "json \<Rightarrow> string \<Rightarrow> json option" where
  "jprop (JObj kvs) k = map_of kvs k"
| "jprop _ k = None"

fun asArray :: "json option \<Rightarrow> json list option" where
  "asArray (Some (JArr xs)) = Some xs"
| "asArray _ = None"

fun asNumber :: "json \<Rightarrow> jsnum option" where
  "asNumber (JNum n) = Some n"
| "asNumber _ = None"

text \<open>\<open>typeof v === 'number' && Number.isInteger(v) && v >= 0\<close>, with the integer.\<close>

fun asCount :: "json option \<Rightarrow> nat option" where
  "asCount (Some (JNum (Fin r))) = (if r = of_int \<lfloor>r\<rfloor> \<and> 0 \<le> r then Some (nat \<lfloor>r\<rfloor>) else None)"
| "asCount _ = None"

fun asRow :: "json \<Rightarrow> jsnum list option" where
  "asRow (JArr xs) =
     (if length xs = 4 \<and> list_all (\<lambda>v. asNumber v \<noteq> None) xs then Some (map (\<lambda>v. the (asNumber v)) xs)
      else None)"
| "asRow _ = None"

fun isObject :: "json \<Rightarrow> bool" where
  "isObject (JObj _) = True"
| "isObject (JArr _) = True"
| "isObject _ = False"

definition validateTrxHeader :: "json \<Rightarrow> error + TrxHeader" where
  "validateTrxHeader obj =
     (if \<not> isObject obj then Inl (InvalidTrxHeader NotAnObject)
      else case asArray (jprop obj ''VOXEL_TO_RASMM'') of
        None \<Rightarrow> Inl (InvalidTrxHeader VoxelToRasmm)
      | Some rows \<Rightarrow>
          if length rows \<noteq> 4 then Inl (InvalidTrxHeader VoxelToRasmm)
          else if \<not> list_all (\<lambda>row. asRow row \<noteq> None) rows then Inl (InvalidTrxHeader VoxelToRasmmRow)
          else case asArray (jprop obj ''DIMENSIONS'') of
            None \<Rightarrow> Inl (InvalidTrxHeader Dimensions)
          | Some ds \<Rightarrow>
              (case map (\<lambda>d. asCount (Some d)) ds of
                 [Some d0, Some d1, Some d2] \<Rightarrow>
                   (case asCount (jprop obj ''NB_STREAMLINES'') of
                      None \<Rightarrow> Inl (InvalidTrxHeader NbStreamlines)
                    | Some nbs \<Rightarrow>
                        (case asCount (jprop obj ''NB_VERTICES'') of
                           None \<Rightarrow> Inl (InvalidTrxHeader NbVertices)
                         | Some nbv \<Rightarrow>
                             Inr \<lparr>VOXEL_TO_RASMM = map (\<lambda>row. the (asRow row)) rows,
                                  DIMENSIONS = (int d0, int d1, int d2),
                                  NB_STREAMLINES = nbs, NB_VERTICES = nbv\<rparr>))
               | _ \<Rightarrow> Inl (InvalidTrxHeader Dimensions)))"

record ZipEntry =
  name :: string
  data :: bytes

text \<open>
  \<open>bytes.slice(a, b)\<close> with \<open>0 \<le> a \<le> b\<close>, and \<open>TextDecoder('utf-8')\<close> on a file name. The
  decoded name is kept as its bytes, without a leading byte order mark: the parser only
  compares names with ASCII texts and splits them at ASCII characters, and an ASCII byte
  always decodes to itself.
\<close>

definition sliceNat :: "bytes \<Rightarrow> nat \<Rightarrow> nat \<Rightarrow> bytes" where
  "sliceNat bs a b = take (b - a) (drop a bs)"

definition decodeName :: "bytes \<Rightarrow> string" where
  "decodeName bs = (if take 3 bs = [CHR 0xEF, CHR 0xBB, CHR 0xBF] then drop 3 bs else bs)"

text \<open>
  The loop of \<open>parseZipEntries\<close>. \<open>inflate\<close> stands for \<open>zlib.inflateRawSync\<close>, which is not
  code of this repository.
\<close>

function zip_loop ::
  "(bytes \<Rightarrow> error + bytes) \<Rightarrow> bytes \<Rightarrow> nat \<Rightarrow> ZipEntry list \<Rightarrow> error + ZipEntry list" where
  "zip_loop inflate buf off acc =
     (if int off < int (length buf) - 4 then
        case getUint32 buf (int off) True of
          Inl e \<Rightarrow> Inl e
        | Inr signature \<Rightarrow>
        if signature \<noteq> 0x04034b50 then Inr acc
        else
        case getUint16 buf (int off + 8) True of
          Inl e \<Rightarrow> Inl e
        | Inr compressionMethod \<Rightarrow>
        case getUint32 buf (int off + 18) True of
          Inl e \<Rightarrow> Inl e
        | Inr compressedSize \<Rightarrow>
        case getUint32 buf (int off + 22) True of
          Inl e \<Rightarrow> Inl e
        | Inr uncompressedSize \<Rightarrow>
        case getUint16 buf (int off + 26) True of
          Inl e \<Rightarrow> Inl e
        | Inr nameLength \<Rightarrow>
        case getUint16 buf (int off + 28) True of
          Inl e \<Rightarrow> Inl e
        | Inr extraLength \<Rightarrow>
            let nm = decodeName (sliceNat buf (off + 30) (off + 30 + nameLength));
                dataOffset = off + 30 + nameLength + extraLength
            in if compressionMethod = 0
               then zip_loop inflate buf (dataOffset + compressedSize)
                      (acc @ [\<lparr>name = nm, data = sliceNat buf dataOffset (dataOffset + compressedSize)\<rparr>])
               else if compressionMethod = 8
               then (case inflate (sliceNat buf dataOffset (dataOffset + compressedSize)) of
                       Inl e \<Rightarrow> Inl e
                     | Inr d \<Rightarrow>
                         zip_loop inflate buf (dataOffset + compressedSize) (acc @ [\<lparr>name = nm, data = d\<rparr>]))
               else zip_loop inflate buf (dataOffset + compressedSize) acc
      else Inr acc)"
  by pat_completeness auto
termination
  by (relation "measure (\<lambda>(inflate, buf, off, acc). length buf - off)") auto

declare zip_loop.simps [simp del]

definition parseZipEntries :: "(bytes \<Rightarrow> error + bytes) \<Rightarrow> bytes \<Rightarrow> error + ZipEntry list" where
  "parseZipEntries inflate buf = zip_loop inflate buf 0 []"

text \<open>
  \<open>float16ToFloat32\<close>, on the 16 bits that \<open>getUint16\<close> read.
\<close>

definition float16ToFloat32 :: "nat \<Rightarrow> jsnum" where
  "float16ToFloat32 h =
     (let sign = h div 2 ^ 15 mod 2; exponent = h div 2 ^ 10 mod 32; mantissa = h mod 1024
      in if exponent = 0 then
           (if mantissa = 0 then Fin 0
            else let v = real mantissa / 1024 * pow2 (- 14) in if sign = 0 then Fin v else Fin (- v))
         else if exponent = 31 then
           (if mantissa = 0 then (if sign = 0 then PosInf else NegInf) else NaN)
         else let v = (1 + real mantissa / 1024) * pow2 (int exponent - 15)
              in if sign = 0 then Fin v else Fin (- v))"

text \<open>
  The part of a name after its last \<open>sep\<close>, which is \<open>name.split(sep).pop()\<close>, and
  \<open>toLowerCase\<close> as far as it can produce an ASCII text.
\<close>

definition lastPart :: "char \<Rightarrow> string \<Rightarrow> string" where
  "lastPart sep s = rev (takeWhile (\<lambda>c. c \<noteq> sep) (rev s))"

definition basename :: "string \<Rightarrow> string" where
  "basename filename = (if lastPart (CHR ''/'') filename = [] then filename else lastPart (CHR ''/'') filename)"

definition asciiLower :: "string \<Rightarrow> string" where
  "asciiLower s = map (\<lambda>c. if 65 \<le> bval c \<and> bval c \<le> 90 then char_of (bval c + 32) else c) s"

text \<open>
  The decoding loops of \<open>parsePositions\<close> and \<open>parseOffsets\<close>: element \<open>i\<close> is read at
  \<open>i * w\<close> for every \<open>i\<close> below \<open>byteLength / w\<close>, so the last read throws when the length is
  not a multiple of \<open>w\<close>.
\<close>

definition decodeArray :: "nat \<Rightarrow> (bytes \<Rightarrow> int \<Rightarrow> bool \<Rightarrow> error + 'a) \<Rightarrow> bytes \<Rightarrow> error + 'a list" where
  "decodeArray w get d = traverse (\<lambda>i. get d (int (i * w)) True) [0..<(length d + w - 1) div w]"

definition getFloat16 :: "bytes \<Rightarrow> int \<Rightarrow> bool \<Rightarrow> error + jsnum" where
  "getFloat16 d off le =
     (case getUint16 d off le of Inl e \<Rightarrow> Inl e | Inr h \<Rightarrow> Inr (float16ToFloat32 h))"

definition getUint32i :: "bytes \<Rightarrow> int \<Rightarrow> bool \<Rightarrow> error + int" where
  "getUint32i d off le = (case getUint32 d off le of Inl e \<Rightarrow> Inl e | Inr v \<Rightarrow> Inr (int v))"

text \<open>The component count in the file name is computed and not used.\<close>

definition parsePositions :: "string \<Rightarrow> bytes \<Rightarrow> error + jsnum list" where
  "parsePositions filename d =
     (let dtype = asciiLower (lastPart (CHR ''.'') (basename filename))
      in if dtype = ''float16'' then decodeArray 2 getFloat16 d
         else if dtype = ''float32'' then decodeArray 4 getFloat32 d
         else if dtype = ''float64'' then decodeArray 8 getFloat64 d
         else Inl (UnsupportedPositionsType dtype))"

text \<open>The offsets, as the integers that \<open>Number\<close> makes of them later.\<close>

definition parseOffsets :: "string \<Rightarrow> bytes \<Rightarrow> error + int list" where
  "parseOffsets filename d =
     (let dtype = asciiLower (lastPart (CHR ''.'') (basename filename))
      in if dtype = ''uint64'' then decodeArray 8 getBigUint64 d
         else if dtype = ''int64'' then decodeArray 8 getBigInt64 d
         else if dtype = ''uint32'' then decodeArray 4 getUint32i d
         else if dtype = ''int32'' then decodeArray 4 getInt32 d
         else Inl (UnsupportedOffsetsType dtype))"

text \<open>
  \<open>buildStreamlines\<close>. \<open>Number(offsets[i])\<close> is NaN when \<open>i\<close> is not an index of the
  offsets; \<open>totalVertices\<close> is \<open>positions.length / 3\<close>.
\<close>

definition startOffset :: "int list \<Rightarrow> nat \<Rightarrow> jsnum" where
  "startOffset offsets i = (case js_index offsets (jnat i) of None \<Rightarrow> NaN | Some v \<Rightarrow> jint v)"

definition endOffset :: "jsnum list \<Rightarrow> int list \<Rightarrow> nat \<Rightarrow> jsnum" where
  "endOffset positions offsets i =
     (if i + 1 < length offsets then jint (offsets ! (i + 1))
      else jdiv (jnat (length positions)) (Fin 3))"

function build_loop :: "jsnum list \<Rightarrow> int list \<Rightarrow> nat \<Rightarrow> nat \<Rightarrow> streamline list \<Rightarrow> streamline list" where
  "build_loop positions offsets nbStreamlines i acc =
     (if i < nbStreamlines then
        let s = startOffset offsets i; e = endOffset positions offsets i; n = jsub e s
        in if jlt n (Fin 2) then build_loop positions offsets nbStreamlines (i + 1) acc
           else build_loop positions offsets nbStreamlines (i + 1)
                  (acc @ [\<lparr>points = js_slice positions (jmul s (Fin 3)) (jmul e (Fin 3)),
                           numPoints = n, scalars = None, properties = None\<rparr>])
      else acc)"
  by pat_completeness auto
termination
  by (relation "measure (\<lambda>(positions, offsets, nb, i, acc). nb - i)") auto

declare build_loop.simps [simp del]

definition buildStreamlines :: "jsnum list \<Rightarrow> int list \<Rightarrow> nat \<Rightarrow> streamline list" where
  "buildStreamlines positions offsets nbStreamlines = build_loop positions offsets nbStreamlines 0 []"

text \<open>
  \<open>extractVoxelSize\<close>: the norms of the first three columns over the rows 0 to 2; a cell
  that a row does not have is \<open>undefined\<close>, whose square is NaN.
\<close>

definition cell :: "jsnum list list \<Rightarrow> nat \<Rightarrow> nat \<Rightarrow> jsnum" where
  "cell m i j = (if j < length (m ! i) then m ! i ! j else NaN)"

definition columnNorm :: "jsnum list list \<Rightarrow> nat \<Rightarrow> jsnum" where
  "columnNorm m j =
     jsqrt (jadd (jadd (jmul (cell m 0 j) (cell m 0 j)) (jmul (cell m 1 j) (cell m 1 j)))
                (jmul (cell m 2 j) (cell m 2 j)))"

definition extractVoxelSize :: "jsnum list list \<Rightarrow> (jsnum \<times> jsnum \<times> jsnum) option" where
  "extractVoxelSize m =
     (if length m < 3 then None else Some (columnNorm m 0, columnNorm m 1, columnNorm m 2))"

definition isHeaderEntry :: "ZipEntry \<Rightarrow> bool" where
  "isHeaderEntry e = (name e = ''header.json'' \<or> endsWith (name e) ''/header.json'')"

definition isPositionsEntry :: "ZipEntry \<Rightarrow> bool" where
  "isPositionsEntry e = (startsWith (name e) ''positions.'' \<or> includesStr ''/positions.'' (name e))"

definition isOffsetsEntry :: "ZipEntry \<Rightarrow> bool" where
  "isOffsetsEntry e = (startsWith (name e) ''offsets.'' \<or> includesStr ''/offsets.'' (name e))"

text \<open>
  \<open>parseTrxFile\<close>. \<open>jsonParse\<close> stands for decoding the entry as UTF-8 and \<open>JSON.parse\<close>,
  \<open>None\<close> being its \<open>SyntaxError\<close>.
\<close>

definition parseTrxFile ::
  "(bytes \<Rightarrow> error + bytes) \<Rightarrow> (bytes \<Rightarrow> json option) \<Rightarrow> bytes \<Rightarrow> error + TractographyData" where
  "parseTrxFile inflate jsonParse buf =
     (if length buf > MAX_FILE_SIZE then Inl FileTooLarge
      else case parseZipEntries inflate buf of
        Inl e \<Rightarrow> Inl e
      | Inr entries \<Rightarrow>
      case find isHeaderEntry entries of
        None \<Rightarrow> Inl MissingHeaderJson
      | Some headerEntry \<Rightarrow>
      case jsonParse (data headerEntry) of
        None \<Rightarrow> Inl JsonSyntaxError
      | Some obj \<Rightarrow>
      case validateTrxHeader obj of
        Inl e \<Rightarrow> Inl e
      | Inr trxHeader \<Rightarrow>
      case find isPositionsEntry entries of
        None \<Rightarrow> Inl MissingPositions
      | Some positionsEntry \<Rightarrow>
      case find isOffsetsEntry entries of
        None \<Rightarrow> Inl MissingOffsets
      | Some offsetsEntry \<Rightarrow>
      case parsePositions (name positionsEntry) (data positionsEntry) of
        Inl e \<Rightarrow> Inl e
      | Inr positions \<Rightarrow>
      case parseOffsets (name offsetsEntry) (data offsetsEntry) of
        Inl e \<Rightarrow> Inl e
      | Inr offsets \<Rightarrow>
          let sl = buildStreamlines positions offsets (NB_STREAMLINES trxHeader)
          in Inr \<lparr>header =
                    \<lparr>format = Trx, dim = DIMENSIONS trxHeader,
                     voxelSize = (case extractVoxelSize (VOXEL_TO_RASMM trxHeader) of
                                    None \<Rightarrow> DEFAULT_VOXEL_SIZE | Some v \<Rightarrow> v),
                     nCount = length sl, version = 1\<rparr>,
                  streamlines = sl\<rparr>)"

section \<open>The bounding box (trkParser.ts)\<close>

record bounds =
  minX :: jsnum
  minY :: jsnum
  minZ :: jsnum
  maxX :: jsnum
  maxY :: jsnum
  maxZ :: jsnum

record BoundingBox =
  bb_min :: "jsnum \<times> jsnum \<times> jsnum"
  bb_max :: "jsnum \<times> jsnum \<times> jsnum"
  bb_center :: "jsnum \<times> jsnum \<times> jsnum"
  bb_size :: jsnum

text \<open>
  \<open>points[i]\<close> as an argument of \<open>Math.min\<close>: past the end it is \<open>undefined\<close>, which
  counts as NaN.
\<close>

definition coord :: "jsnum list \<Rightarrow> nat \<Rightarrow> jsnum" where
  "coord ps i = (if i < length ps then ps ! i else NaN)"

function points_loop :: "jsnum list \<Rightarrow> nat \<Rightarrow> bounds \<Rightarrow> bounds" where
  "points_loop ps i b =
     (if i < length ps then
        let x = coord ps i; y = coord ps (i + 1); z = coord ps (i + 2)
        in points_loop ps (i + 3)
             \<lparr>minX = jmin (minX b) x, minY = jmin (minY b) y, minZ = jmin (minZ b) z,
              maxX = jmax (maxX b) x, maxY = jmax (maxY b) y, maxZ = jmax (maxZ b) z\<rparr>
      else b)"
  by pat_completeness auto
termination
  by (relation "measure (\<lambda>(ps, i, b). length ps - i)") auto

declare points_loop.simps [simp del]

definition square :: "jsnum \<Rightarrow> jsnum" where
  "square a = jmul a a"

definition half :: "jsnum \<Rightarrow> jsnum" where
  "half a = jdiv a (Fin 2)"

definition calculateBoundingBox :: "streamline list \<Rightarrow> BoundingBox" where
  "calculateBoundingBox sls =
     (let b = foldl (\<lambda>b s. points_loop (points s) 0 b)
                \<lparr>minX = PosInf, minY = PosInf, minZ = PosInf,
                 maxX = NegInf, maxY = NegInf, maxZ = NegInf\<rparr> sls
      in \<lparr>bb_min = (minX b, minY b, minZ b),
          bb_max = (maxX b, maxY b, maxZ b),
          bb_center = (half (jadd (minX b) (maxX b)), half (jadd (minY b) (maxY b)),
                    half (jadd (minZ b) (maxZ b))),
          bb_size = jsqrt (jadd (jadd (square (jsub (maxX b) (minX b)))
                                   (square (jsub (maxY b) (minY b))))
                             (square (jsub (maxZ b) (minZ b))))\<rparr>)"

section \<open>Predicates and inputs used in the statements\<close>

text \<open>What every record that the TRK loop appends looks like.\<close>

definition trk_record_ok :: "streamline \<Rightarrow> bool" where
  "trk_record_ok s =
     (\<exists>n. 0 < n \<and> n \<le> 100000 \<and> numPoints s = jint n \<and> length (points s) = 3 * nat n)"

text \<open>
  A TRK file whose header is zero except for the identifier, the low byte of the
  scalar-channel count, the low byte of the declared streamline count and the four bytes
  of the header size; \<open>body\<close> follows the header.
\<close>

definition trk_file :: "char \<Rightarrow> char \<Rightarrow> bytes \<Rightarrow> bytes \<Rightarrow> bytes" where
  "trk_file sc declared hs body =
     ''TRACK'' @ replicate 31 (CHR 0x00) @ [sc, CHR 0x00] @ replicate 950 (CHR 0x00) @
     [declared, CHR 0x00, CHR 0x00, CHR 0x00] @ replicate 4 (CHR 0x00) @ hs @ body"

definition size1000 :: bytes where
  "size1000 = [CHR 0xE8, CHR 0x03, CHR 0x00, CHR 0x00]"

definition trk_declares_five :: bytes where
  "trk_declares_five = trk_file (CHR 0x00) (CHR 0x05) size1000 []"

definition trk_one_point :: bytes where
  "trk_one_point =
     trk_file (CHR 0x00) (CHR 0x00) size1000
       ([CHR 0x01, CHR 0x00, CHR 0x00, CHR 0x00] @ replicate 12 (CHR 0x00))"

definition trk_eleven_scalars :: bytes where
  "trk_eleven_scalars = trk_file (CHR 0x0B) (CHR 0x00) size1000 []"

definition trk_size_999 :: bytes where
  "trk_size_999 = trk_file (CHR 0x00) (CHR 0x00) [CHR 0xE7, CHR 0x03, CHR 0x00, CHR 0x00] []"

definition plain_header :: "int \<Rightarrow> int \<Rightarrow> int \<Rightarrow> TrkHeader" where
  "plain_header sc declared hs =
     \<lparr>idString = ''TRACK'', trk_dim = (0, 0, 0), trk_voxelSize = (Fin 0, Fin 0, Fin 0),
      nScalars = sc, nProperties = 0, trk_nCount = declared, trk_version = 0, hdrSize = hs\<rparr>"

definition origin_point :: streamline where
  "origin_point = \<lparr>points = [Fin 0, Fin 0, Fin 0], numPoints = Fin 1, scalars = None,
                    properties = None\<rparr>"

text \<open>
  The records of a TRK body that lie end to end from \<open>off\<close> with the point counts \<open>ns\<close>:
  the offset of each record's count with that count, and the offset after the last record.
  \<open>trk_record_at\<close> says that a record the loop decodes starts at an offset: the count read
  there lies in (0, 100000] and the bytes of the record fit in the buffer. \<open>trk_stop\<close> is the
  disjunction of the ways in which the loop ends at an offset with \<open>k\<close> streamlines
  collected: the buffer has no byte left, a positive declared count is reached, fewer than
  four bytes are left for the count, the count read is out of range, or the record it
  announces does not fit.
\<close>

fun trk_records :: "TrkHeader \<Rightarrow> int \<Rightarrow> int list \<Rightarrow> (int \<times> int) list" where
  "trk_records h off [] = []"
| "trk_records h off (n # ns) = (off, n) # trk_records h (off + 4 + recordSize h n) ns"

fun trk_records_end :: "TrkHeader \<Rightarrow> int \<Rightarrow> int list \<Rightarrow> int" where
  "trk_records_end h off [] = off"
| "trk_records_end h off (n # ns) = trk_records_end h (off + 4 + recordSize h n) ns"

definition trk_record_at :: "bytes \<Rightarrow> TrkHeader \<Rightarrow> int \<Rightarrow> int \<Rightarrow> bool" where
  "trk_record_at buf h off n =
     (getInt32 buf off True = Inr n \<and> 0 < n \<and> n \<le> 100000 \<and>
      off + 4 + (n * (4 * (3 + nScalars h)) + 4 * nProperties h) \<le> int (length buf))"

definition trk_stop :: "bytes \<Rightarrow> TrkHeader \<Rightarrow> int \<Rightarrow> nat \<Rightarrow> bool" where
  "trk_stop buf h off k =
     (int (length buf) \<le> off \<or> (0 < trk_nCount h \<and> trk_nCount h \<le> int k) \<or>
      int (length buf) < off + 4 \<or>
      (case getInt32 buf off True of
         Inl e \<Rightarrow> False
       | Inr n \<Rightarrow>
           n \<le> 0 \<or> 100000 < n \<or>
           int (length buf) < off + 4 + (n * (4 * (3 + nScalars h)) + 4 * nProperties h)))"

text \<open>
  A record of the two points (1, 2, 0) and (0, 0, 0.5), the streamline it decodes to, and
  files in which that record is followed by a count of 100001, by a count of -1, by a
  second record while the header declares one streamline, by a record cut short, and by a
  second record alone.
\<close>

definition two_point_record :: bytes where
  "two_point_record =
     [CHR 0x02, CHR 0x00, CHR 0x00, CHR 0x00,
      CHR 0x00, CHR 0x00, CHR 0x80, CHR 0x3F,  CHR 0x00, CHR 0x00, CHR 0x00, CHR 0x40,
      CHR 0x00, CHR 0x00, CHR 0x00, CHR 0x00,
      CHR 0x00, CHR 0x00, CHR 0x00, CHR 0x00,  CHR 0x00, CHR 0x00, CHR 0x00, CHR 0x00,
      CHR 0x00, CHR 0x00, CHR 0x00, CHR 0x3F]"

definition two_point_streamline :: streamline where
  "two_point_streamline =
     \<lparr>points = [Fin 1, Fin 2, Fin 0, Fin 0, Fin 0, Fin (1 / 2)], numPoints = Fin 2,
      scalars = None, properties = None\<rparr>"

definition trk_bad_count_after :: bytes where
  "trk_bad_count_after =
     trk_file (CHR 0x00) (CHR 0x00) size1000
       (two_point_record @ [CHR 0xA1, CHR 0x86, CHR 0x01, CHR 0x00] @ two_point_record)"

definition trk_negative_count_after :: bytes where
  "trk_negative_count_after =
     trk_file (CHR 0x00) (CHR 0x00) size1000
       (two_point_record @ [CHR 0xFF, CHR 0xFF, CHR 0xFF, CHR 0xFF] @ two_point_record)"

definition trk_declares_one :: bytes where
  "trk_declares_one =
     trk_file (CHR 0x00) (CHR 0x01) size1000 (two_point_record @ two_point_record)"

definition trk_truncated :: bytes where
  "trk_truncated =
     trk_file (CHR 0x00) (CHR 0x00) size1000 (two_point_record @ take 20 two_point_record)"

definition trk_two_records :: bytes where
  "trk_two_records =
     trk_file (CHR 0x00) (CHR 0x00) size1000 (two_point_record @ two_point_record)"

text \<open>
  A file with one scalar channel and one record of the point (1, 2, 0) with the scalar 0.5,
  and the streamline it decodes to.
\<close>

definition trk_one_scalar :: bytes where
  "trk_one_scalar =
     trk_file (CHR 0x01) (CHR 0x00) size1000
       [CHR 0x01, CHR 0x00, CHR 0x00, CHR 0x00,
        CHR 0x00, CHR 0x00, CHR 0x80, CHR 0x3F,  CHR 0x00, CHR 0x00, CHR 0x00, CHR 0x40,
        CHR 0x00, CHR 0x00, CHR 0x00, CHR 0x00,  CHR 0x00, CHR 0x00, CHR 0x00, CHR 0x3F]"

definition scalar_streamline :: streamline where
  "scalar_streamline =
     \<lparr>points = [Fin 1, Fin 2, Fin 0], numPoints = Fin 1, scalars = Some [[Fin (1 / 2)]],
      properties = None\<rparr>"






text \<open>What every streamline that the TCK loop appends looks like.\<close>

definition tck_record_ok :: "streamline \<Rightarrow> bool" where
  "tck_record_ok s = (\<exists>k. 2 \<le> k \<and> numPoints s = jnat k \<and> length (points s) = 3 * k)"

text \<open>The unified header of a TCK result with \<open>n\<close> streamlines.\<close>

definition tck_result :: "streamline list \<Rightarrow> TractographyData" where
  "tck_result sl =
     \<lparr>header = \<lparr>format = Tck, dim = DEFAULT_DIMENSIONS, voxelSize = DEFAULT_VOXEL_SIZE,
                 nCount = length sl, version = 1\<rparr>,
      streamlines = sl\<rparr>"

text \<open>TCK files: a header, two points at the origin and a triplet that starts with Infinity.\<close>

definition tck_text :: string where
  "tck_text = ''mrtrix tracks\<newline>datatype: Float32LE\<newline>count: 1\<newline>END\<newline>''"

definition inf_triplet :: bytes where
  "inf_triplet = [CHR 0x00, CHR 0x00, CHR 0x80, CHR 0x7F] @ replicate 8 (CHR 0x00)"

definition tck_two_points_inf :: bytes where
  "tck_two_points_inf = tck_text @ replicate 24 (CHR 0x00) @ inf_triplet"

definition two_origin_points :: streamline where
  "two_origin_points = finish [Fin 0, Fin 0, Fin 0, Fin 0, Fin 0, Fin 0]"

text \<open>A header without a datatype line, and one whose only \<open>END\<close> is the end of a word.\<close>

definition tck_no_datatype :: bytes where
  "tck_no_datatype = ''mrtrix tracks\<newline>count: 1\<newline>END\<newline>'' @ replicate 24 (CHR 0x00)"



text \<open>
  Following the words of the specification, the streamline of index \<open>i\<close> in a TRX file:
  none when \<open>end - start < 2\<close>, and otherwise the slice of the positions from \<open>3 * start\<close>
  to \<open>3 * end\<close>.
\<close>

definition trx_streamline :: "jsnum list \<Rightarrow> int list \<Rightarrow> nat \<Rightarrow> streamline option" where
  "trx_streamline positions offsets i =
     (if jlt (jsub (endOffset positions offsets i) (startOffset offsets i)) (Fin 2) then None
      else Some \<lparr>points = js_slice positions (jmul (startOffset offsets i) (Fin 3))
                            (jmul (endOffset positions offsets i) (Fin 3)),
                 numPoints = jsub (endOffset positions offsets i) (startOffset offsets i),
                 scalars = None, properties = None\<rparr>)"




text \<open>
  The coordinates of one axis (\<open>k\<close> is 0, 1 or 2) of all points of a list of streamlines,
  and the finite value of a number.
\<close>

definition axis :: "nat \<Rightarrow> streamline list \<Rightarrow> jsnum list" where
  "axis k sls =
     concat (map (\<lambda>s. map (\<lambda>i. points s ! (3 * i + k)) [0..<length (points s) div 3]) sls)"

fun fin :: "jsnum \<Rightarrow> real" where
  "fin (Fin r) = r"
| "fin _ = 0"

definition wellFormed :: "streamline list \<Rightarrow> bool" where
  "wellFormed sls = (\<forall>s \<in> set sls. 3 dvd length (points s) \<and> (\<forall>v \<in> set (points s). isFinite v))"

text \<open>
  Streamlines whose points arrays hold whole points and no NaN coordinate, and the least
  and the greatest of a list of numbers in the order of \<open>\<le>\<close> on numbers.
\<close>

definition wholePoints :: "streamline list \<Rightarrow> bool" where
  "wholePoints sls = (\<forall>s \<in> set sls. 3 dvd length (points s) \<and> (\<forall>v \<in> set (points s). \<not> isNaN v))"

definition isLeast :: "jsnum \<Rightarrow> jsnum list \<Rightarrow> bool" where
  "isLeast m vs = (m \<in> set vs \<and> (\<forall>v \<in> set vs. jle m v))"

definition isGreatest :: "jsnum \<Rightarrow> jsnum list \<Rightarrow> bool" where
  "isGreatest m vs = (m \<in> set vs \<and> (\<forall>v \<in> set vs. jle v m))"

definition lo :: "nat \<Rightarrow> streamline list \<Rightarrow> real" where
  "lo k sls = Min (set (map fin (axis k sls)))"

definition hi :: "nat \<Rightarrow> streamline list \<Rightarrow> real" where
  "hi k sls = Max (set (map fin (axis k sls)))"

definition two_corners :: "streamline list" where
  "two_corners = [\<lparr>points = map Fin [0, 0, 0, 2, 4, 6], numPoints = Fin 2, scalars = None,
                   properties = None\<rparr>]"

text \<open>
  A streamline with a NaN coordinate between two finite ones, a points array of four
  floats, and a streamline with infinite coordinates.
\<close>

definition nan_coordinate :: "streamline list" where
  "nan_coordinate = [\<lparr>points = [Fin 1, Fin 0, Fin 0, NaN, Fin 0, Fin 0, Fin 5, Fin 0, Fin 0],
                      numPoints = Fin 3, scalars = None, properties = None\<rparr>]"

definition ragged_points :: "streamline list" where
  "ragged_points = [\<lparr>points = [Fin 0, Fin 0, Fin 0, Fin 5], numPoints = Fin 2, scalars = None,
                     properties = None\<rparr>]"

definition infinite_coordinates :: "streamline list" where
  "infinite_coordinates = [\<lparr>points = [PosInf, Fin 0, NegInf, Fin 1, Fin 2, Fin 3],
                            numPoints = Fin 2, scalars = None, properties = None\<rparr>]"

text \<open>The running bounds after the coordinates \<open>xs\<close>, \<open>ys\<close>, \<open>zs\<close> of further points.\<close>

definition extend :: "bounds \<Rightarrow> jsnum list \<Rightarrow> jsnum list \<Rightarrow> jsnum list \<Rightarrow> bounds" where
  "extend b xs ys zs =
     \<lparr>minX = foldl jmin (minX b) xs, minY = foldl jmin (minY b) ys, minZ = foldl jmin (minZ b) zs,
      maxX = foldl jmax (maxX b) xs, maxY = foldl jmax (maxY b) ys, maxZ = foldl jmax (maxZ b) zs\<rparr>"

definition axisFrom :: "nat \<Rightarrow> jsnum list \<Rightarrow> nat \<Rightarrow> jsnum list" where
  "axisFrom k ps i = map (\<lambda>j. ps ! (3 * j + k)) [i..<length ps div 3]"

text \<open>
  A TRX archive of three stored entries: \<open>header.json\<close> with the text \<open>trx_header_text\<close>,
  the positions of four vertices at the origin as 32-bit floats, and the offsets 0 and 2
  as 32-bit unsigned integers. The stand-ins for the two functions of the platform:
  \<open>JSON.parse\<close> on the one text that the archive holds, which is a syntax error on every
  other text, and an inflater that is never called on this archive.
\<close>

definition zip_entry :: "char \<Rightarrow> char \<Rightarrow> string \<Rightarrow> bytes \<Rightarrow> bytes" where
  "zip_entry sz nameLength nm d =
     [CHR 0x50, CHR 0x4B, CHR 0x03, CHR 0x04] @ replicate 14 (CHR 0x00) @
     [sz, CHR 0x00, CHR 0x00, CHR 0x00] @ [sz, CHR 0x00, CHR 0x00, CHR 0x00] @
     [nameLength, CHR 0x00] @ [CHR 0x00, CHR 0x00] @ nm @ d"

definition quoted :: "string \<Rightarrow> string" where
  "quoted s = CHR 0x22 # s @ [CHR 0x22]"

definition trx_header_text :: bytes where
  "trx_header_text =
     ''{'' @ quoted ''VOXEL_TO_RASMM'' @ '':[[1,0,0,0],[0,1,0,0],[0,0,1,0],[0,0,0,1]],'' @
     quoted ''DIMENSIONS'' @ '':[1,1,1],'' @ quoted ''NB_STREAMLINES'' @ '':2,'' @
     quoted ''NB_VERTICES'' @ '':4}''"

definition trx_archive :: bytes where
  "trx_archive =
     zip_entry (CHR 0x74) (CHR 0x0B) ''header.json'' trx_header_text @
     zip_entry (CHR 0x30) (CHR 0x13) ''positions.3.float32'' (replicate 48 (CHR 0x00)) @
     zip_entry (CHR 0x08) (CHR 0x0E) ''offsets.uint32''
       [CHR 0x00, CHR 0x00, CHR 0x00, CHR 0x00, CHR 0x02, CHR 0x00, CHR 0x00, CHR 0x00]"

definition identity4 :: json where
  "identity4 =
     JArr [JArr [JNum (Fin 1), JNum (Fin 0), JNum (Fin 0), JNum (Fin 0)],
           JArr [JNum (Fin 0), JNum (Fin 1), JNum (Fin 0), JNum (Fin 0)],
           JArr [JNum (Fin 0), JNum (Fin 0), JNum (Fin 1), JNum (Fin 0)],
           JArr [JNum (Fin 0), JNum (Fin 0), JNum (Fin 0), JNum (Fin 1)]]"

definition trx_json :: json where
  "trx_json =
     JObj [(''VOXEL_TO_RASMM'', identity4),
           (''DIMENSIONS'', JArr [JNum (Fin 1), JNum (Fin 1), JNum (Fin 1)]),
           (''NB_STREAMLINES'', JNum (Fin 2)), (''NB_VERTICES'', JNum (Fin 4))]"

definition parse_header_text :: "bytes \<Rightarrow> json option" where
  "parse_header_text d = (if d = trx_header_text then Some trx_json else None)"

definition no_inflate :: "bytes \<Rightarrow> error + bytes" where
  "no_inflate d = Inl InflateError"

definition two_origin_vertices :: streamline where
  "two_origin_vertices = \<lparr>points = replicate 6 (Fin 0), numPoints = Fin 2, scalars = None,
                          properties = None\<rparr>"

definition trx_result :: TractographyData where
  "trx_result =
     \<lparr>header = \<lparr>format = Trx, dim = (1, 1, 1), voxelSize = (Fin 1, Fin 1, Fin 1), nCount = 2,
                 version = 1\<rparr>,
      streamlines = [two_origin_vertices, two_origin_vertices]\<rparr>"

section \<open>Verified properties\<close>

subsection \<open>Numbers that are natural\<close>

lemma jlt_jnat [simp]: "jlt (jnat a) (jnat b) = (a < b)"
  by (simp add: jnat_def)

lemma jle_jnat [simp]: "jle (jnat a) (jnat b) = (a \<le> b)"
  by (simp add: jnat_def)

lemma jadd_jnat [simp]: "jadd (jnat a) (jnat b) = jnat (a + b)"
  by (simp add: jnat_def)

lemma jmin_jnat [simp]: "jmin (jnat a) (jnat b) = jnat (min a b)"
  by (simp add: jnat_def min_def)

lemma js_index_jnat [simp]: "js_index xs (jnat i) = (if i < length xs then Some (xs ! i) else None)"
  by (simp add: jnat_def)

lemma relIndex_jnat [simp]: "relIndex len (jnat i) = min i len"
  by (simp add: jnat_def trunc_def)

subsection \<open>Stride sampling\<close>

lemma ceil_div_lt:
  assumes "0 < s"
  shows "(k * s < (t::nat)) = (k < (t + s - 1) div s)"
proof -
  have "(k < (t + s - 1) div s) = (Suc k \<le> (t + s - 1) div s)" by auto
  also have "\<dots> = (Suc k * s \<le> t + s - 1)"
    using assms by (simp only: less_eq_div_iff_mult_less_eq)
  also have "\<dots> = (k * s < t)" using assms by (cases s) auto
  finally show ?thesis by simp
qed

lemma sampleLoop_stride:
  assumes s: "0 < s"
  shows "length acc = k \<Longrightarrow> n = min m ((length xs + s - 1) div s) \<Longrightarrow> d = n - k \<Longrightarrow>
     sampleLoop xs (jnat m) (jnat s) (jnat (k * s)) acc
       = Some (acc @ map (\<lambda>j. Some (xs ! (j * s))) [k..<n])"
proof (induction d arbitrary: k acc)
  case 0
  then have "\<not> (k * s < length xs \<and> k < m)" using ceil_div_lt[OF s, of k "length xs"] by auto
  then show ?case using 0 by (subst sampleLoop.simps) auto
next
  case (Suc d)
  then have lt: "k * s < length xs" "k < m" "k < n" using ceil_div_lt[OF s, of k "length xs"] by auto
  have IH: "sampleLoop xs (jnat m) (jnat s) (jnat (Suc k * s)) (acc @ [Some (xs ! (k * s))])
      = Some ((acc @ [Some (xs ! (k * s))]) @ map (\<lambda>j. Some (xs ! (j * s))) [Suc k..<n])"
    using Suc by (intro Suc.IH) auto
  have "sampleLoop xs (jnat m) (jnat s) (jnat (k * s)) acc
      = sampleLoop xs (jnat m) (jnat s) (jnat (Suc k * s)) (acc @ [Some (xs ! (k * s))])"
    using lt Suc.prems(1) by (subst sampleLoop.simps) (simp add: add.commute)
  then show ?case using IH lt by (simp add: upt_conv_Cons)
qed


lemma filter_lt_upt: "filter (\<lambda>k. k < n) [0..<m] = [0..<min m n]"
  by (induction m) (auto simp: min_def not_less_eq_eq dest: le_antisym)

lemma jceil_jdiv_jnat:
  assumes "0 < t"
  shows "jceil (jdiv (jnat a) (jnat t)) = jnat (nat \<lceil>real a / real t\<rceil>)"
proof -
  have "0 \<le> real a / real t" by simp
  then have "0 \<le> \<lceil>real a / real t\<rceil>" by linarith
  then show ?thesis using assms by (simp add: jnat_def)
qed

lemma skip_pos:
  assumes "0 < t" "t \<le> a"
  shows "0 < nat \<lceil>real a / real t\<rceil>"
proof -
  have "1 \<le> real a / real t" using assms by simp
  then show ?thesis by linarith
qed

lemma sampleLoop_stop:
  "\<not> (jlt i (jnat (length xs)) \<and> jlt (jnat (length acc)) maxCount) \<Longrightarrow>
     sampleLoop xs maxCount sf i acc = Some acc"
  by (subst sampleLoop.simps) auto

lemma js_slice_take: "js_slice xs (Fin 0) (jnat n) = take n xs"
  by (simp add: js_slice_def Let_def min_def trunc_def)

lemma applySkipSampling_under:
  assumes "jle (jnat (length xs)) thr"
  shows "applySkipSampling xs (jnat m) thr =
     Some \<lparr>sampled = map Some (take (min m (length xs)) xs), skipFactor = Fin 1,
           totalCount = length xs\<rparr>"
  using assms by (simp add: applySkipSampling_def Let_def js_slice_take)

lemma applySkipSampling_over:
  assumes "\<not> jle (jnat (length xs)) thr" "0 < m" "0 < length xs"
  shows "applySkipSampling xs (jnat m) thr =
     Some \<lparr>sampled = map (\<lambda>k. Some (xs ! (k * nat \<lceil>real (length xs) / real (min m (length xs))\<rceil>)))
             (filter (\<lambda>k. k * nat \<lceil>real (length xs) / real (min m (length xs))\<rceil> < length xs) [0..<m]),
           skipFactor = jnat (nat \<lceil>real (length xs) / real (min m (length xs))\<rceil>),
           totalCount = length xs\<rparr>"
proof -
  define t where "t = min m (length xs)"
  define s where "s = nat \<lceil>real (length xs) / real t\<rceil>"
  have t: "0 < t" "t \<le> length xs" using assms by (auto simp: t_def)
  have s: "0 < s" unfolding s_def using t by (rule skip_pos)
  have sf: "jceil (jdiv (jnat (length xs)) (jnat t)) = jnat s"
    unfolding s_def using t(1) by (rule jceil_jdiv_jnat)
  have loop: "sampleLoop xs (jnat m) (jnat s) (Fin 0) []
      = Some (map (\<lambda>j. Some (xs ! (j * s))) [0..<min m ((length xs + s - 1) div s)])"
    using sampleLoop_stride[OF s, of "[]" 0 _ m xs] by (simp add: jnat_def)
  have flt: "filter (\<lambda>k. k * s < length xs) [0..<m] = [0..<min m ((length xs + s - 1) div s)]"
    using filter_lt_upt[of "(length xs + s - 1) div s" m] by (simp add: ceil_div_lt[OF s])
  show ?thesis
    using assms(1) by (simp add: applySkipSampling_def Let_def t_def[symmetric] sf loop flt s_def[symmetric])
qed

lemma applySkipSampling_none:
  assumes "\<not> jle (jnat (length xs)) thr" "m = 0 \<or> length xs = 0"
  shows "applySkipSampling xs (jnat m) thr =
     Some \<lparr>sampled = [], skipFactor = (if length xs = 0 then NaN else PosInf),
           totalCount = length xs\<rparr>"
proof -
  have stop: "sampleLoop xs (jnat m) sf (Fin 0) [] = Some []" for sf
    using assms(2) by (intro sampleLoop_stop) (auto simp: jnat_def)
  have "jceil (jdiv (jnat (length xs)) (jnat (min m (length xs))))
      = (if length xs = 0 then NaN else PosInf)"
    using assms(2) by (auto simp: jnat_def jinf_def)
  then show ?thesis using assms(1) by (simp add: applySkipSampling_def Let_def stop)
qed

text \<open>
  C5 (as stated, it fails). \<open>maxCount\<close> is a number that the callers read from the
  configuration and from a message, unchecked. With \<open>maxCount = -1\<close> and five streamlines
  under the threshold, \<open>slice(0, -1)\<close> returns the first four of them, and the minimum of
  \<open>maxCount\<close> and the total is \<open>-1\<close>. With \<open>maxCount = 2.5\<close> and five streamlines, the
  minimum is 2.5: under the threshold \<open>slice(0, 2.5)\<close> returns two, and over the threshold
  the loop collects three, more than \<open>maxCount\<close>.
\<close>

theorem applySkipSampling_other_counts:
  "applySkipSampling [10, 11, 12, 13, 14 :: nat] (Fin (- 1)) (jnat 10) =
     Some \<lparr>sampled = [Some 10, Some 11, Some 12, Some 13], skipFactor = Fin 1, totalCount = 5\<rparr> \<and>
   jmin (Fin (- 1)) (jnat 5) = Fin (- 1) \<and>
   applySkipSampling [10, 11, 12, 13, 14 :: nat] (Fin (5 / 2)) (jnat 10) =
     Some \<lparr>sampled = [Some 10, Some 11], skipFactor = Fin 1, totalCount = 5\<rparr> \<and>
   jmin (Fin (5 / 2)) (jnat 5) = Fin (5 / 2) \<and>
   applySkipSampling [10, 11, 12, 13, 14 :: nat] (Fin (5 / 2)) (jnat 3) =
     Some \<lparr>sampled = [Some 10, Some 12, Some 14], skipFactor = Fin 2, totalCount = 5\<rparr>"
proof -
  have c: "\<lceil>- 1 :: real\<rceil> = - 1" by linarith
  have under: "applySkipSampling [10, 11, 12, 13, 14 :: nat] (Fin (- 1)) (jnat 10) =
     Some \<lparr>sampled = [Some 10, Some 11, Some 12, Some 13], skipFactor = Fin 1, totalCount = 5\<rparr>"
    by (simp add: applySkipSampling_def js_slice_def trunc_def jnat_def c)
  have f: "\<lfloor>5 / 2 :: real\<rfloor> = 2" by linarith
  have part: "applySkipSampling [10, 11, 12, 13, 14 :: nat] (Fin (5 / 2)) (jnat 10) =
     Some \<lparr>sampled = [Some 10, Some 11], skipFactor = Fin 1, totalCount = 5\<rparr>"
    by (simp add: applySkipSampling_def js_slice_def trunc_def jnat_def f)
  have c2: "\<lceil>5 / (5 / 2) :: real\<rceil> = 2" by simp
  have l3: "sampleLoop [10, 11, 12, 13, 14 :: nat] (Fin (5 / 2)) (Fin 2) (Fin 6)
      [Some 10, Some 12, Some 14] = Some [Some 10, Some 12, Some 14]"
    by (subst sampleLoop.simps) (simp add: jnat_def)
  have l2: "sampleLoop [10, 11, 12, 13, 14 :: nat] (Fin (5 / 2)) (Fin 2) (Fin 4)
      [Some 10, Some 12] = Some [Some 10, Some 12, Some 14]"
    by (subst sampleLoop.simps) (simp add: jnat_def l3)
  have l1: "sampleLoop [10, 11, 12, 13, 14 :: nat] (Fin (5 / 2)) (Fin 2) (Fin 2)
      [Some 10] = Some [Some 10, Some 12, Some 14]"
    by (subst sampleLoop.simps) (simp add: jnat_def l2)
  have l0: "sampleLoop [10, 11, 12, 13, 14 :: nat] (Fin (5 / 2)) (Fin 2) (Fin 0)
      [] = Some [Some 10, Some 12, Some 14]"
    by (subst sampleLoop.simps) (simp add: jnat_def l1)
  have over: "applySkipSampling [10, 11, 12, 13, 14 :: nat] (Fin (5 / 2)) (jnat 3) =
     Some \<lparr>sampled = [Some 10, Some 12, Some 14], skipFactor = Fin 2, totalCount = 5\<rparr>"
    by (simp add: applySkipSampling_def jnat_def c2 l0)
  show ?thesis using under part over by (simp add: jnat_def)
qed

text \<open>
  C5 (amended). For every list, every threshold and every \<open>maxCount\<close> that is a
  non-negative integer (written \<open>m\<close>; zero is the positive zero): when the list is no longer
  than the threshold, \<open>applySkipSampling\<close> returns its first \<open>min m total\<close> elements with
  skip factor 1. Otherwise the skip factor is \<open>ceil (total / min m total)\<close> and the sample is
  the elements at the multiples of the skip factor below \<open>total\<close>, at most \<open>m\<close> of them,
  every one a defined element; when \<open>m\<close> or \<open>total\<close> is 0 the division gives Infinity or NaN
  and the sample is empty. In particular 10000 elements with \<open>maxCount = 1000\<close> and threshold
  5000 give skip factor 10 and the 1000 elements at indices 0, 10, 20, ...
\<close>

theorem applySkipSampling_stride:
  fixes xs :: "'a list" and m :: nat and thr :: jsnum
  shows
    "(jle (jnat (length xs)) thr \<longrightarrow>
        applySkipSampling xs (jnat m) thr =
          Some \<lparr>sampled = map Some (take (min m (length xs)) xs), skipFactor = Fin 1,
                totalCount = length xs\<rparr>) \<and>
     (\<not> jle (jnat (length xs)) thr \<and> 0 < m \<and> 0 < length xs \<longrightarrow>
        applySkipSampling xs (jnat m) thr =
          Some \<lparr>sampled =
                  map (\<lambda>k. Some (xs ! (k * nat \<lceil>real (length xs) / real (min m (length xs))\<rceil>)))
                    (filter (\<lambda>k. k * nat \<lceil>real (length xs) / real (min m (length xs))\<rceil> < length xs)
                       [0..<m]),
                skipFactor = jnat (nat \<lceil>real (length xs) / real (min m (length xs))\<rceil>),
                totalCount = length xs\<rparr>) \<and>
     (\<not> jle (jnat (length xs)) thr \<and> (m = 0 \<or> length xs = 0) \<longrightarrow>
        applySkipSampling xs (jnat m) thr =
          Some \<lparr>sampled = [],
                skipFactor = jceil (jdiv (jnat (length xs)) (jmin (jnat m) (jnat (length xs)))),
                totalCount = length xs\<rparr>) \<and>
     (length xs = 10000 \<longrightarrow>
        applySkipSampling xs (jnat 1000) (jnat 5000) =
          Some \<lparr>sampled = map (\<lambda>k. Some (xs ! (k * 10))) [0..<1000], skipFactor = jnat 10,
                totalCount = 10000\<rparr>)"
proof (intro conjI impI)
  assume "jle (jnat (length xs)) thr"
  then show "applySkipSampling xs (jnat m) thr =
      Some \<lparr>sampled = map Some (take (min m (length xs)) xs), skipFactor = Fin 1,
            totalCount = length xs\<rparr>"
    by (rule applySkipSampling_under)
next
  assume "\<not> jle (jnat (length xs)) thr \<and> 0 < m \<and> 0 < length xs"
  then show "applySkipSampling xs (jnat m) thr =
      Some \<lparr>sampled =
              map (\<lambda>k. Some (xs ! (k * nat \<lceil>real (length xs) / real (min m (length xs))\<rceil>)))
                (filter (\<lambda>k. k * nat \<lceil>real (length xs) / real (min m (length xs))\<rceil> < length xs)
                   [0..<m]),
            skipFactor = jnat (nat \<lceil>real (length xs) / real (min m (length xs))\<rceil>),
            totalCount = length xs\<rparr>"
    by (intro applySkipSampling_over) auto
next
  assume a: "\<not> jle (jnat (length xs)) thr \<and> (m = 0 \<or> length xs = 0)"
  then have "jceil (jdiv (jnat (length xs)) (jmin (jnat m) (jnat (length xs))))
      = (if length xs = 0 then NaN else PosInf)"
    by (auto simp: jnat_def jinf_def)
  then show "applySkipSampling xs (jnat m) thr =
      Some \<lparr>sampled = [],
            skipFactor = jceil (jdiv (jnat (length xs)) (jmin (jnat m) (jnat (length xs)))),
            totalCount = length xs\<rparr>"
    using a applySkipSampling_none[of xs thr m] by simp
next
  assume len: "length xs = 10000"
  have sf: "nat \<lceil>real (length xs) / real (min 1000 (length xs))\<rceil> = 10"
    by (simp add: len)
  have flt: "filter (\<lambda>k. k * 10 < length xs) [0..<1000] = [0..<1000]"
    by (rule filter_True) (simp add: len)
  have "\<not> jle (jnat (length xs)) (jnat 5000)" by (simp add: len)
  from applySkipSampling_over[OF this, of 1000]
  show "applySkipSampling xs (jnat 1000) (jnat 5000) =
      Some \<lparr>sampled = map (\<lambda>k. Some (xs ! (k * 10))) [0..<1000], skipFactor = jnat 10,
            totalCount = 10000\<rparr>"
    unfolding sf flt by (simp add: len)
qed

theorem applySkipSampling_stride_witness:
  "applySkipSampling [10, 11, 12, 13, 14 :: nat] (jnat 2) (jnat 10) =
     Some \<lparr>sampled = [Some 10, Some 11], skipFactor = Fin 1, totalCount = 5\<rparr> \<and>
   applySkipSampling [10, 11, 12, 13, 14 :: nat] (jnat 2) (jnat 3) =
     Some \<lparr>sampled = [Some 10, Some 13], skipFactor = jnat 3, totalCount = 5\<rparr> \<and>
   applySkipSampling [10, 11, 12, 13, 14 :: nat] (jnat 0) (jnat 3) =
     Some \<lparr>sampled = [], skipFactor = PosInf, totalCount = 5\<rparr> \<and>
   applySkipSampling (replicate 10000 (7 :: nat)) (jnat 1000) (jnat 5000) =
     Some \<lparr>sampled = map (\<lambda>k. Some (replicate 10000 7 ! (k * 10))) [0..<1000],
           skipFactor = jnat 10, totalCount = 10000\<rparr>"
proof -
  have up: "[0..<2] = [0, Suc 0]" by (simp add: upt_conv_Cons)
  have c: "\<lceil>5 / 2 :: real\<rceil> = 3" by linarith
  show ?thesis
    using applySkipSampling_stride[of "[10, 11, 12, 13, 14 :: nat]" "jnat 10" 2]
      applySkipSampling_stride[of "[10, 11, 12, 13, 14 :: nat]" "jnat 3" 2]
      applySkipSampling_stride[of "[10, 11, 12, 13, 14 :: nat]" "jnat 3" 0]
      applySkipSampling_stride[of "replicate 10000 (7 :: nat)" "jnat 3" 0]
    by (simp add: up c jnat_def jinf_def)
qed

subsection \<open>The TRK parser\<close>

lemma validate_ok_iff:
  assumes "trk_dim h = (d0, d1, d2)" "trk_voxelSize h = (v0, v1, v2)"
  shows "validateTrkHeader h = Inr () \<longleftrightarrow>
     (0 \<le> nScalars h \<and> nScalars h \<le> 10 \<and> 0 \<le> nProperties h \<and> nProperties h \<le> 10 \<and>
      (\<forall>d \<in> {d0, d1, d2}. 0 \<le> d \<and> d \<le> 65535) \<and>
      (\<forall>v \<in> {v0, v1, v2}. isFinite v \<and> \<not> jlt v (Fin 0)) \<and> hdrSize h = 1000)"
  using assms by (auto simp: validateTrkHeader_def)

lemma traverse_ok:
  "\<forall>x \<in> set xs. \<exists>y. f x = Inr y \<Longrightarrow> \<exists>ys. traverse f xs = Inr ys"
proof (induction xs)
  case Nil
  then show ?case by simp
next
  case (Cons x xs)
  then obtain y where y: "f x = Inr y" by force
  from Cons obtain ys where "traverse f xs = Inr ys" by force
  with y show ?case by simp
qed

lemma traverse_length: "traverse f xs = Inr ys \<Longrightarrow> length ys = length xs"
  by (induction xs arbitrary: ys) (auto split: sum.splits)

lemma getFloat32_ok: "inRange buf off 4 \<Longrightarrow> \<exists>y. getFloat32 buf off le = Inr y"
  by (simp add: getFloat32_def)

lemma readStreamline_ok:
  assumes h: "0 \<le> nScalars h" "0 \<le> nProperties h"
    and n: "0 < n" and off: "0 \<le> off"
    and fit: "off + (n * (4 * (3 + nScalars h)) + 4 * nProperties h) \<le> int (length buf)"
  shows "\<exists>sl. readStreamline buf h off n = Inr sl"
proof -
  let ?st = "pointStride h"
  have st: "?st = 12 + 4 * nScalars h" "12 \<le> ?st" using h by (simp_all add: pointStride_def)
  have fit': "off + n * ?st + 4 * nProperties h \<le> int (length buf)"
    using fit by (simp add: st algebra_simps)
  have row: "int i * ?st + ?st \<le> n * ?st" if "int i < n" for i
  proof -
    have "(int i + 1) * ?st \<le> n * ?st" using that st by (intro mult_right_mono) auto
    then show ?thesis by (simp add: algebra_simps)
  qed
  have p1: "\<exists>y. getFloat32 buf (off + int (k div 3) * ?st + 4 * int (k mod 3)) True = Inr y"
    if "k \<in> set [0..<3 * nat n]" for k
  proof -
    have "int (k div 3) < n" using that n by auto
    from row[OF this] have "int (k div 3) * ?st + 12 \<le> n * ?st" using st by linarith
    moreover have "4 * int (k mod 3) + 4 \<le> 12" by simp
    ultimately show ?thesis using fit' off h st
      by (intro getFloat32_ok) (auto simp: inRange_def)
  qed
  have p2: "\<exists>y. getFloat32 buf (off + int i * ?st + 12 + 4 * int s) True = Inr y"
    if "i \<in> set [0..<nat n]" "s \<in> set [0..<nat (nScalars h)]" for i s
  proof -
    have "int i < n" using that by auto
    from row[OF this] have "int i * ?st + ?st \<le> n * ?st" .
    moreover have "12 + 4 * int s + 4 \<le> ?st" using that st by auto
    ultimately show ?thesis using fit' off h
      by (intro getFloat32_ok) (auto simp: inRange_def)
  qed
  have p3: "\<exists>y. getFloat32 buf (off + n * ?st + 4 * int p) True = Inr y"
    if "p \<in> set [0..<nat (nProperties h)]" for p
  proof -
    have "0 \<le> n * ?st" using n st by simp
    then show ?thesis using that fit' off
      by (intro getFloat32_ok) (auto simp: inRange_def)
  qed
  obtain pts where pts: "traverse (\<lambda>k. getFloat32 buf (off + int (k div 3) * ?st + 4 * int (k mod 3)) True)
             [0..<3 * nat n] = Inr pts"
    using p1 by (meson traverse_ok)
  have "\<exists>y. traverse (\<lambda>i. getFloat32 buf (off + int i * ?st + 12 + 4 * int s) True) [0..<nat n] = Inr y"
    if "s \<in> set [0..<nat (nScalars h)]" for s
    using p2[OF _ that] by (meson traverse_ok)
  then obtain scs where scs: "traverse (\<lambda>s. traverse (\<lambda>i. getFloat32 buf (off + int i * ?st + 12 + 4 * int s) True)
                            [0..<nat n]) [0..<nat (nScalars h)] = Inr scs"
    by (meson traverse_ok)
  obtain props where props: "traverse (\<lambda>p. getFloat32 buf (off + n * ?st + 4 * int p) True)
             [0..<nat (nProperties h)] = Inr props"
    using p3 by (meson traverse_ok)
  show ?thesis by (simp add: readStreamline_def pts scs props)
qed

lemma readStreamline_shape:
  assumes "readStreamline buf h off n = Inr sl"
  shows "numPoints sl = jint n \<and> length (points sl) = 3 * nat n"
  using assms
  by (auto simp: readStreamline_def split: sum.splits dest: traverse_length)


lemma trk_loop_ok:
  "0 \<le> nScalars h \<and> 0 \<le> nProperties h \<Longrightarrow> 0 \<le> off \<Longrightarrow>
     \<exists>ys. trk_loop buf h off acc = Inr (acc @ ys) \<and> (\<forall>s \<in> set ys. trk_record_ok s) \<and>
        (0 < trk_nCount h \<longrightarrow> int (length acc) \<le> trk_nCount h \<longrightarrow> int (length (acc @ ys)) \<le> trk_nCount h)"
proof (induction buf h off acc rule: trk_loop.induct)
  case (1 buf h off acc)
  note IH = "1.IH" and off = "1.prems"(2)
  have h: "0 \<le> nScalars h" "0 \<le> nProperties h" using "1.prems"(1) by auto
  show ?case
  proof (cases "off < int (length buf) \<and> (trk_nCount h > 0 \<longrightarrow> int (length acc) < trk_nCount h)")
    case False
    then show ?thesis by (subst trk_loop.simps) auto
  next
    case c1: True
    show ?thesis
    proof (cases "off + 4 > int (length buf)")
      case True
      then show ?thesis using c1 by (subst trk_loop.simps) auto
    next
      case c2: False
      then obtain n where n: "getInt32 buf off True = Inr n"
        using off by (auto simp: getInt32_def inRange_def)
      show ?thesis
      proof (cases "n \<le> 0 \<or> n > 100000 \<or>
          off + 4 + (n * (4 * (3 + nScalars h)) + 4 * nProperties h) > int (length buf)")
        case True
        then show ?thesis using c1 c2 n by (subst trk_loop.simps) auto
      next
        case c3: False
        then have npos: "0 < n" "n \<le> 100000" by auto
        have "\<exists>sl. readStreamline buf h (off + 4) n = Inr sl"
          using c3 off by (intro readStreamline_ok) (auto simp: h)
        then obtain sl where sl: "readStreamline buf h (off + 4) n = Inr sl" by blast
        have "0 \<le> n * pointStride h" using npos h by (simp add: pointStride_def)
        then have off': "0 \<le> off + 4 + recordSize h n"
          using off h by (simp add: recordSize_def)
        from IH[OF c1 c2 n _ _ sl "1.prems"(1) off'] c3
        obtain ys where ys: "trk_loop buf h (off + 4 + recordSize h n) (acc @ [sl]) = Inr ((acc @ [sl]) @ ys)"
          "\<forall>s \<in> set ys. trk_record_ok s"
          "0 < trk_nCount h \<longrightarrow> int (length (acc @ [sl])) \<le> trk_nCount h \<longrightarrow>
             int (length ((acc @ [sl]) @ ys)) \<le> trk_nCount h"
          by auto
        have step: "trk_loop buf h off acc = trk_loop buf h (off + 4 + recordSize h n) (acc @ [sl])"
          using c1 c2 c3 n sl by (subst trk_loop.simps) auto
        have rec: "trk_record_ok sl"
          using readStreamline_shape[OF sl] npos by (auto simp: trk_record_ok_def)
        show ?thesis
          using ys rec c1 unfolding step by (intro exI[of _ "sl # ys"]) auto
      qed
    qed
  qed
qed

lemma trk_loop_bad_count:
  assumes "getInt32 buf off True = Inr n" "n \<le> 0 \<or> n > 100000"
  shows "trk_loop buf h off acc = Inr acc"
  using assms by (subst trk_loop.simps) auto

lemma trk_loop_count_reached:
  assumes "0 < trk_nCount h" "trk_nCount h \<le> int (length acc)"
  shows "trk_loop buf h off acc = Inr acc"
  using assms by (subst trk_loop.simps) auto

lemma trk_loop_exhausted:
  assumes "int (length buf) < off + 4 \<or>
     (getInt32 buf off True = Inr n \<and>
      int (length buf) < off + 4 + (n * (4 * (3 + nScalars h)) + 4 * nProperties h))"
  shows "trk_loop buf h off acc = Inr acc"
  using assms by (subst trk_loop.simps) auto


lemma uintLE_zeros [simp]: "uintLE (replicate n (CHR 0x00)) = 0"
  by (induction n) (simp_all add: bval_def)

lemma toSigned_0 [simp]: "toSigned b 0 = 0"
  by (simp add: toSigned_def)

lemma plain_header_sel [simp]:
  "idString (plain_header sc d hs) = ''TRACK''"
  "trk_dim (plain_header sc d hs) = (0, 0, 0)"
  "trk_voxelSize (plain_header sc d hs) = (Fin 0, Fin 0, Fin 0)"
  "nScalars (plain_header sc d hs) = sc"
  "nProperties (plain_header sc d hs) = 0"
  "trk_nCount (plain_header sc d hs) = d"
  "hdrSize (plain_header sc d hs) = hs"
  by (simp_all add: plain_header_def)

lemma trk_file_length: "length (trk_file sc d hs body) = 996 + length hs + length body"
  by (simp add: trk_file_def)

lemma trk_file_header:
  "trk_parseHeader (trk_file sc d [h0, h1, CHR 0x00, CHR 0x00] body) =
     Inr (plain_header (toSigned 16 (bval sc)) (toSigned 32 (bval d))
            (toSigned 32 (bval h0 + 256 * bval h1)))"
  by (simp add: trk_parseHeader_def trk_file_def plain_header_def uintAt_def float32OfBits_def)
     (simp add: bval_def)

lemma header_declares_five: "trk_parseHeader trk_declares_five = Inr (plain_header 0 5 1000)"
  by (simp add: trk_declares_five_def size1000_def trk_file_header) (simp add: toSigned_def bval_def)

lemma header_one_point: "trk_parseHeader trk_one_point = Inr (plain_header 0 0 1000)"
  by (simp add: trk_one_point_def size1000_def trk_file_header) (simp add: toSigned_def bval_def)

lemma header_eleven_scalars: "trk_parseHeader trk_eleven_scalars = Inr (plain_header 11 0 1000)"
  by (simp add: trk_eleven_scalars_def size1000_def trk_file_header) (simp add: toSigned_def bval_def)

lemma header_size_999: "trk_parseHeader trk_size_999 = Inr (plain_header 0 0 999)"
  by (simp add: trk_size_999_def trk_file_header) (simp add: toSigned_def bval_def)

lemma validate_plain:
  "validateTrkHeader (plain_header sc d hs) =
     (if sc < 0 \<or> sc > 10 then Inl (BadNScalars sc)
      else if hs \<noteq> 1000 then Inl (BadHdrSize hs) else Inr ())"
  by (simp add: validateTrkHeader_def)

lemma parse_declares_five:
  "parseTrkFile trk_declares_five =
     Inr \<lparr>trk_header = plain_header 0 5 1000, trk_streamlines = []\<rparr>"
proof -
  have len: "length trk_declares_five = 1000"
    by (simp add: trk_declares_five_def size1000_def trk_file_length)
  have "trk_loop trk_declares_five h 1000 [] = Inr []" for h
    by (subst trk_loop.simps) (simp add: len)
  then show ?thesis
    by (simp add: parseTrkFile_def header_declares_five validate_plain trk_parseStreamlines_def
        MAX_FILE_SIZE_def len)
qed

lemma parse_one_point:
  "parseTrkFile trk_one_point =
     Inr \<lparr>trk_header = plain_header 0 0 1000, trk_streamlines = [origin_point]\<rparr>"
proof -
  let ?h = "plain_header 0 0 1000"
  have len: "length trk_one_point = 1016"
    by (simp add: trk_one_point_def size1000_def trk_file_length)
  have n: "getInt32 trk_one_point 1000 True = Inr 1"
    by (simp add: getInt32_def inRange_def len)
       (simp add: trk_one_point_def size1000_def trk_file_def uintAt_def toSigned_def bval_def)
  have f: "getFloat32 trk_one_point 1004 True = Inr (Fin 0)"
    "getFloat32 trk_one_point 1008 True = Inr (Fin 0)"
    "getFloat32 trk_one_point 1012 True = Inr (Fin 0)"
    by (simp_all add: getFloat32_def inRange_def len)
       (simp_all add: trk_one_point_def size1000_def trk_file_def uintAt_def float32OfBits_def)
  have up: "[0..<3] = [0, 1, 2]" by (simp add: upt_conv_Cons)
  have rd: "readStreamline trk_one_point ?h 1004 1 = Inr origin_point"
    by (simp add: readStreamline_def pointStride_def up jint_def f origin_point_def)
  have l2: "trk_loop trk_one_point ?h 1016 [origin_point] = Inr [origin_point]"
    by (subst trk_loop.simps) (simp add: len)
  have l1: "trk_loop trk_one_point ?h 1000 [] = Inr [origin_point]"
    by (subst trk_loop.simps)
       (simp add: len n rd recordSize_def pointStride_def l2)
  show ?thesis
    by (simp add: parseTrkFile_def header_one_point validate_plain trk_parseStreamlines_def
        MAX_FILE_SIZE_def len l1)
qed

lemma parseTrkFile_valid:
  assumes "length buf \<le> MAX_FILE_SIZE" "trk_parseHeader buf = Inr h"
    "take 5 (idString h) = ''TRACK''" "validateTrkHeader h = Inr ()"
  shows "\<exists>sl. parseTrkFile buf = Inr \<lparr>trk_header = h, trk_streamlines = sl\<rparr> \<and>
     (\<forall>s \<in> set sl. trk_record_ok s) \<and> (0 < trk_nCount h \<longrightarrow> int (length sl) \<le> trk_nCount h)"
proof -
  obtain d0 d1 d2 v0 v1 v2 where dv: "trk_dim h = (d0, d1, d2)" "trk_voxelSize h = (v0, v1, v2)"
    by (metis prod_cases3)
  from assms(4) have ok: "0 \<le> nScalars h \<and> 0 \<le> nProperties h" "hdrSize h = 1000"
    using validate_ok_iff[OF dv] by auto
  from trk_loop_ok[OF ok(1), of 1000 buf "[]"]
  obtain ys where "trk_loop buf h 1000 [] = Inr ys" "\<forall>s \<in> set ys. trk_record_ok s"
    "0 < trk_nCount h \<longrightarrow> int (length ys) \<le> trk_nCount h"
    by auto
  then show ?thesis
    using assms by (simp add: parseTrkFile_def trk_parseStreamlines_def ok(2))
qed

lemma parseTrkFile_invalid:
  assumes "trk_parseHeader buf = Inr h" "validateTrkHeader h \<noteq> Inr ()"
  shows "\<exists>e. parseTrkFile buf = Inl e"
proof -
  from assms(2) obtain e where "validateTrkHeader h = Inl e"
    by (cases "validateTrkHeader h") auto
  then show ?thesis using assms(1) by (simp add: parseTrkFile_def)
qed

text \<open>
  C7. \<open>validateTrkHeader\<close> succeeds exactly when the scalar-channel count and the property
  count are in 0..10, every dimension is in 0..65535, every voxel size is finite and not
  negative, and the header size is 1000. Each violated bound, met in that order, has an
  error of its own which carries the offending value. A buffer whose header violates a
  bound, in particular one with \<open>hdrSize\<close> other than 1000 or with \<open>nScalars = 11\<close>, makes
  \<open>parseTrkFile\<close> fail, so no streamlines are returned.
\<close>

theorem validateTrkHeader_fails_closed:
  assumes "trk_dim h = (d0, d1, d2)" and "trk_voxelSize h = (v0, v1, v2)"
  shows
    "(validateTrkHeader h = Inr () \<longleftrightarrow>
        0 \<le> nScalars h \<and> nScalars h \<le> 10 \<and> 0 \<le> nProperties h \<and> nProperties h \<le> 10 \<and>
        (\<forall>d \<in> {d0, d1, d2}. 0 \<le> d \<and> d \<le> 65535) \<and>
        (\<forall>v \<in> {v0, v1, v2}. isFinite v \<and> \<not> jlt v (Fin 0)) \<and> hdrSize h = 1000) \<and>
     (nScalars h < 0 \<or> 10 < nScalars h \<longrightarrow>
        validateTrkHeader h = Inl (BadNScalars (nScalars h))) \<and>
     (0 \<le> nScalars h \<and> nScalars h \<le> 10 \<and> (nProperties h < 0 \<or> 10 < nProperties h) \<longrightarrow>
        validateTrkHeader h = Inl (BadNProperties (nProperties h))) \<and>
     (0 \<le> nScalars h \<and> nScalars h \<le> 10 \<and> 0 \<le> nProperties h \<and> nProperties h \<le> 10 \<and>
      (\<exists>d \<in> {d0, d1, d2}. d < 0 \<or> 65535 < d) \<longrightarrow>
        (\<exists>i d. validateTrkHeader h = Inl (BadDimension i d) \<and> d = [d0, d1, d2] ! i \<and> i < 3 \<and>
           (d < 0 \<or> 65535 < d))) \<and>
     (0 \<le> nScalars h \<and> nScalars h \<le> 10 \<and> 0 \<le> nProperties h \<and> nProperties h \<le> 10 \<and>
      (\<forall>d \<in> {d0, d1, d2}. 0 \<le> d \<and> d \<le> 65535) \<and>
      (\<exists>v \<in> {v0, v1, v2}. \<not> isFinite v \<or> jlt v (Fin 0)) \<longrightarrow>
        (\<exists>i v. validateTrkHeader h = Inl (BadVoxelSize i v) \<and> v = [v0, v1, v2] ! i \<and> i < 3 \<and>
           (\<not> isFinite v \<or> jlt v (Fin 0)))) \<and>
     (0 \<le> nScalars h \<and> nScalars h \<le> 10 \<and> 0 \<le> nProperties h \<and> nProperties h \<le> 10 \<and>
      (\<forall>d \<in> {d0, d1, d2}. 0 \<le> d \<and> d \<le> 65535) \<and>
      (\<forall>v \<in> {v0, v1, v2}. isFinite v \<and> \<not> jlt v (Fin 0)) \<and> hdrSize h \<noteq> 1000 \<longrightarrow>
        validateTrkHeader h = Inl (BadHdrSize (hdrSize h))) \<and>
     (trk_parseHeader buf = Inr h \<and>
      (hdrSize h \<noteq> 1000 \<or> nScalars h = 11 \<or> validateTrkHeader h \<noteq> Inr ()) \<longrightarrow>
        (\<exists>e. parseTrkFile buf = Inl e))"
proof (intro conjI)
  show "validateTrkHeader h = Inr () \<longleftrightarrow>
        0 \<le> nScalars h \<and> nScalars h \<le> 10 \<and> 0 \<le> nProperties h \<and> nProperties h \<le> 10 \<and>
        (\<forall>d \<in> {d0, d1, d2}. 0 \<le> d \<and> d \<le> 65535) \<and>
        (\<forall>v \<in> {v0, v1, v2}. isFinite v \<and> \<not> jlt v (Fin 0)) \<and> hdrSize h = 1000"
    using assms by (rule validate_ok_iff)
  show "nScalars h < 0 \<or> 10 < nScalars h \<longrightarrow>
        validateTrkHeader h = Inl (BadNScalars (nScalars h))"
    using assms by (auto simp: validateTrkHeader_def)
  show "0 \<le> nScalars h \<and> nScalars h \<le> 10 \<and> (nProperties h < 0 \<or> 10 < nProperties h) \<longrightarrow>
        validateTrkHeader h = Inl (BadNProperties (nProperties h))"
    using assms by (auto simp: validateTrkHeader_def)
  show "0 \<le> nScalars h \<and> nScalars h \<le> 10 \<and> 0 \<le> nProperties h \<and> nProperties h \<le> 10 \<and>
      (\<exists>d \<in> {d0, d1, d2}. d < 0 \<or> 65535 < d) \<longrightarrow>
        (\<exists>i d. validateTrkHeader h = Inl (BadDimension i d) \<and> d = [d0, d1, d2] ! i \<and> i < 3 \<and>
           (d < 0 \<or> 65535 < d))"
  proof
    assume a: "0 \<le> nScalars h \<and> nScalars h \<le> 10 \<and> 0 \<le> nProperties h \<and> nProperties h \<le> 10 \<and>
      (\<exists>d \<in> {d0, d1, d2}. d < 0 \<or> 65535 < d)"
    consider "d0 < 0 \<or> 65535 < d0"
      | "\<not> (d0 < 0 \<or> 65535 < d0)" "d1 < 0 \<or> 65535 < d1"
      | "\<not> (d0 < 0 \<or> 65535 < d0)" "\<not> (d1 < 0 \<or> 65535 < d1)" "d2 < 0 \<or> 65535 < d2"
      using a by auto
    then show "\<exists>i d. validateTrkHeader h = Inl (BadDimension i d) \<and> d = [d0, d1, d2] ! i \<and> i < 3 \<and>
           (d < 0 \<or> 65535 < d)"
    proof cases
      case 1
      then have "validateTrkHeader h = Inl (BadDimension 0 d0)"
        using a assms by (auto simp: validateTrkHeader_def)
      then show ?thesis using 1 by (intro exI[of _ 0] exI[of _ d0]) simp
    next
      case 2
      then have "validateTrkHeader h = Inl (BadDimension 1 d1)"
        using a assms by (auto simp: validateTrkHeader_def)
      then show ?thesis using 2 by (intro exI[of _ 1] exI[of _ d1]) simp
    next
      case 3
      then have "validateTrkHeader h = Inl (BadDimension 2 d2)"
        using a assms by (auto simp: validateTrkHeader_def)
      then show ?thesis using 3 by (intro exI[of _ 2] exI[of _ d2]) simp
    qed
  qed
  show "0 \<le> nScalars h \<and> nScalars h \<le> 10 \<and> 0 \<le> nProperties h \<and> nProperties h \<le> 10 \<and>
      (\<forall>d \<in> {d0, d1, d2}. 0 \<le> d \<and> d \<le> 65535) \<and>
      (\<exists>v \<in> {v0, v1, v2}. \<not> isFinite v \<or> jlt v (Fin 0)) \<longrightarrow>
        (\<exists>i v. validateTrkHeader h = Inl (BadVoxelSize i v) \<and> v = [v0, v1, v2] ! i \<and> i < 3 \<and>
           (\<not> isFinite v \<or> jlt v (Fin 0)))"
  proof
    assume a: "0 \<le> nScalars h \<and> nScalars h \<le> 10 \<and> 0 \<le> nProperties h \<and> nProperties h \<le> 10 \<and>
      (\<forall>d \<in> {d0, d1, d2}. 0 \<le> d \<and> d \<le> 65535) \<and>
      (\<exists>v \<in> {v0, v1, v2}. \<not> isFinite v \<or> jlt v (Fin 0))"
    consider "\<not> isFinite v0 \<or> jlt v0 (Fin 0)"
      | "\<not> (\<not> isFinite v0 \<or> jlt v0 (Fin 0))" "\<not> isFinite v1 \<or> jlt v1 (Fin 0)"
      | "\<not> (\<not> isFinite v0 \<or> jlt v0 (Fin 0))" "\<not> (\<not> isFinite v1 \<or> jlt v1 (Fin 0))"
        "\<not> isFinite v2 \<or> jlt v2 (Fin 0)"
      using a by auto
    then show "\<exists>i v. validateTrkHeader h = Inl (BadVoxelSize i v) \<and> v = [v0, v1, v2] ! i \<and> i < 3 \<and>
           (\<not> isFinite v \<or> jlt v (Fin 0))"
    proof cases
      case 1
      then have "validateTrkHeader h = Inl (BadVoxelSize 0 v0)"
        using a assms by (auto simp: validateTrkHeader_def)
      then show ?thesis using 1 by (intro exI[of _ 0] exI[of _ v0]) simp
    next
      case 2
      then have "validateTrkHeader h = Inl (BadVoxelSize 1 v1)"
        using a assms by (auto simp: validateTrkHeader_def)
      then show ?thesis using 2 by (intro exI[of _ 1] exI[of _ v1]) simp
    next
      case 3
      then have "validateTrkHeader h = Inl (BadVoxelSize 2 v2)"
        using a assms by (auto simp: validateTrkHeader_def)
      then show ?thesis using 3 by (intro exI[of _ 2] exI[of _ v2]) simp
    qed
  qed
  show "0 \<le> nScalars h \<and> nScalars h \<le> 10 \<and> 0 \<le> nProperties h \<and> nProperties h \<le> 10 \<and>
      (\<forall>d \<in> {d0, d1, d2}. 0 \<le> d \<and> d \<le> 65535) \<and>
      (\<forall>v \<in> {v0, v1, v2}. isFinite v \<and> \<not> jlt v (Fin 0)) \<and> hdrSize h \<noteq> 1000 \<longrightarrow>
        validateTrkHeader h = Inl (BadHdrSize (hdrSize h))"
    using assms by (auto simp: validateTrkHeader_def)
  show "trk_parseHeader buf = Inr h \<and>
      (hdrSize h \<noteq> 1000 \<or> nScalars h = 11 \<or> validateTrkHeader h \<noteq> Inr ()) \<longrightarrow>
        (\<exists>e. parseTrkFile buf = Inl e)"
  proof
    assume a: "trk_parseHeader buf = Inr h \<and>
      (hdrSize h \<noteq> 1000 \<or> nScalars h = 11 \<or> validateTrkHeader h \<noteq> Inr ())"
    then have "validateTrkHeader h \<noteq> Inr ()"
      using validate_ok_iff[OF assms] by auto
    with a show "\<exists>e. parseTrkFile buf = Inl e"
      by (intro parseTrkFile_invalid[of buf h]) auto
  qed
qed

theorem validateTrkHeader_fails_closed_witness:
  "validateTrkHeader (plain_header 11 0 1000) = Inl (BadNScalars 11) \<and>
   validateTrkHeader (plain_header 0 0 999) = Inl (BadHdrSize 999) \<and>
   validateTrkHeader (plain_header 0 5 1000) = Inr () \<and>
   (\<exists>e. parseTrkFile trk_eleven_scalars = Inl e) \<and>
   (\<exists>e. parseTrkFile trk_size_999 = Inl e)"
  using validateTrkHeader_fails_closed[of "plain_header 11 0 1000" 0 0 0 "Fin 0" "Fin 0" "Fin 0"
      trk_eleven_scalars]
    validateTrkHeader_fails_closed[of "plain_header 0 0 999" 0 0 0 "Fin 0" "Fin 0" "Fin 0"
      trk_size_999]
    validateTrkHeader_fails_closed[of "plain_header 0 5 1000" 0 0 0 "Fin 0" "Fin 0" "Fin 0"
      trk_declares_five]
  by (simp add: header_eleven_scalars header_size_999)

lemma traverse_nth:
  "traverse f xs = Inr ys \<Longrightarrow> i < length xs \<Longrightarrow> f (xs ! i) = Inr (ys ! i)"
proof (induction xs arbitrary: ys i)
  case Nil
  then show ?case by simp
next
  case (Cons x xs)
  from Cons.prems(1) obtain y zs where y: "f x = Inr y" "traverse f xs = Inr zs" "ys = y # zs"
    by (auto split: sum.splits)
  show ?case
  proof (cases i)
    case 0
    then show ?thesis using y by simp
  next
    case (Suc j)
    then show ?thesis using y Cons.IH[OF y(2), of j] Cons.prems(2) by simp
  qed
qed

lemma readStreamline_points:
  assumes "readStreamline buf h off n = Inr sl" "k < 3 * nat n"
  shows "getFloat32 buf (off + int (k div 3) * pointStride h + 4 * int (k mod 3)) True =
      Inr (points sl ! k)"
proof -
  from assms(1) obtain pts where
    pts: "traverse (\<lambda>k. getFloat32 buf (off + int (k div 3) * pointStride h + 4 * int (k mod 3)) True)
             [0..<3 * nat n] = Inr pts" and sl: "points sl = pts"
    by (auto simp: readStreamline_def split: sum.splits)
  from traverse_nth[OF pts, of k] assms(2) show ?thesis by (simp add: sl)
qed

lemma trk_loop_step:
  assumes "off < int (length buf)" "0 < trk_nCount h \<longrightarrow> int (length acc) < trk_nCount h"
    "trk_record_at buf h off n" "readStreamline buf h (off + 4) n = Inr sl"
  shows "trk_loop buf h off acc = trk_loop buf h (off + 4 + recordSize h n) (acc @ [sl])"
  using assms
  by (subst trk_loop.simps) (auto simp: trk_record_at_def getInt32_def inRange_def split: if_splits)

lemma trk_loop_stop:
  assumes "trk_stop buf h off (length acc)"
  shows "trk_loop buf h off acc = Inr acc"
  using assms by (subst trk_loop.simps) (auto simp: trk_stop_def split: sum.splits)

lemma trk_record_at_read:
  assumes h: "0 \<le> nScalars h \<and> 0 \<le> nProperties h" and off: "0 \<le> off"
    and r: "trk_record_at buf h off n"
  shows "\<exists>sl. readStreamline buf h (off + 4) n = Inr sl"
proof -
  from r have "0 < n" "off + 4 + (n * (4 * (3 + nScalars h)) + 4 * nProperties h) \<le> int (length buf)"
    by (auto simp: trk_record_at_def)
  then show ?thesis using h off by (intro readStreamline_ok) auto
qed

lemma trk_record_at_next:
  assumes h: "0 \<le> nScalars h \<and> 0 \<le> nProperties h" and off: "0 \<le> off"
    and r: "trk_record_at buf h off n"
  shows "off < off + 4 + recordSize h n" "off < int (length buf)"
proof -
  from r have n: "0 < n" and fit: "off + 4 + (n * (4 * (3 + nScalars h)) + 4 * nProperties h) \<le> int (length buf)"
    by (auto simp: trk_record_at_def)
  have "0 \<le> n * pointStride h" using n h by (simp add: pointStride_def)
  then have "0 \<le> recordSize h n" using h by (simp add: recordSize_def)
  then show "off < off + 4 + recordSize h n" by simp
  have "0 \<le> n * (4 * (3 + nScalars h))" using n h by simp
  then show "off < int (length buf)" using fit h by linarith
qed

lemma trk_loop_records:
  assumes h: "0 \<le> nScalars h \<and> 0 \<le> nProperties h"
  shows "0 \<le> off \<Longrightarrow> (\<forall>(a, n) \<in> set (trk_records h off ns). trk_record_at buf h a n) \<Longrightarrow>
     (0 < trk_nCount h \<longrightarrow> int (length acc + length ns) \<le> trk_nCount h) \<Longrightarrow>
     trk_stop buf h (trk_records_end h off ns) (length acc + length ns) \<Longrightarrow>
     \<exists>sls. traverse (\<lambda>(a, n). readStreamline buf h (a + 4) n) (trk_records h off ns) = Inr sls \<and>
        trk_loop buf h off acc = Inr (acc @ sls)"
proof (induction ns arbitrary: off acc)
  case Nil
  then show ?case by (simp add: trk_loop_stop)
next
  case (Cons n ns)
  from Cons.prems(2) have r: "trk_record_at buf h off n" by simp
  from trk_record_at_read[OF h Cons.prems(1) r]
  obtain sl where sl: "readStreamline buf h (off + 4) n = Inr sl" by blast
  have off': "0 \<le> off + 4 + recordSize h n"
    using trk_record_at_next(1)[OF h Cons.prems(1) r] Cons.prems(1) by simp
  have step: "trk_loop buf h off acc = trk_loop buf h (off + 4 + recordSize h n) (acc @ [sl])"
    using trk_record_at_next(2)[OF h Cons.prems(1) r] Cons.prems(3) r sl
    by (intro trk_loop_step) auto
  have "\<exists>sls. traverse (\<lambda>(a, n). readStreamline buf h (a + 4) n)
          (trk_records h (off + 4 + recordSize h n) ns) = Inr sls \<and>
        trk_loop buf h (off + 4 + recordSize h n) (acc @ [sl]) = Inr ((acc @ [sl]) @ sls)"
    using Cons.prems by (intro Cons.IH[OF off']) auto
  then obtain sls where sls: "traverse (\<lambda>(a, n). readStreamline buf h (a + 4) n)
          (trk_records h (off + 4 + recordSize h n) ns) = Inr sls"
        "trk_loop buf h (off + 4 + recordSize h n) (acc @ [sl]) = Inr ((acc @ [sl]) @ sls)"
    by blast
  show ?case by (intro exI[of _ "sl # sls"]) (simp add: sl sls step)
qed

lemma trk_loop_complete:
  "0 \<le> nScalars h \<and> 0 \<le> nProperties h \<Longrightarrow> 0 \<le> off \<Longrightarrow>
     \<exists>ns. (\<forall>(a, n) \<in> set (trk_records h off ns). trk_record_at buf h a n) \<and>
        (0 < trk_nCount h \<longrightarrow> int (length (acc :: streamline list)) \<le> trk_nCount h \<longrightarrow>
           int (length acc + length ns) \<le> trk_nCount h) \<and>
        trk_stop buf h (trk_records_end h off ns) (length acc + length ns)"
proof (induction buf h off acc rule: trk_loop.induct)
  case (1 buf h off acc)
  note IH = "1.IH" and off = "1.prems"(2)
  have h: "0 \<le> nScalars h \<and> 0 \<le> nProperties h" using "1.prems"(1) .
  show ?case
  proof (cases "trk_stop buf h off (length acc)")
    case True
    then show ?thesis by (intro exI[of _ "[]"]) simp
  next
    case False
    then have c1: "off < int (length buf) \<and> (trk_nCount h > 0 \<longrightarrow> int (length acc) < trk_nCount h)"
      and c2: "\<not> off + 4 > int (length buf)"
      by (auto simp: trk_stop_def)
    from c2 off obtain n where n: "getInt32 buf off True = Inr n"
      by (auto simp: getInt32_def inRange_def)
    from False n have c3: "\<not> (n \<le> 0 \<or> n > 100000)"
      and c4: "\<not> off + 4 + (n * (4 * (3 + nScalars h)) + 4 * nProperties h) > int (length buf)"
      by (auto simp: trk_stop_def)
    have r: "trk_record_at buf h off n" using n c3 c4 by (auto simp: trk_record_at_def)
    from trk_record_at_read[OF h off r]
    obtain sl where sl: "readStreamline buf h (off + 4) n = Inr sl" by blast
    have off': "0 \<le> off + 4 + recordSize h n"
      using trk_record_at_next(1)[OF h off r] off by simp
    from IH[OF c1 c2 n c3 c4 sl h off']
    obtain ns where ns: "\<forall>(a, n) \<in> set (trk_records h (off + 4 + recordSize h n) ns). trk_record_at buf h a n"
      "0 < trk_nCount h \<longrightarrow> int (length (acc @ [sl])) \<le> trk_nCount h \<longrightarrow>
           int (length (acc @ [sl]) + length ns) \<le> trk_nCount h"
      "trk_stop buf h (trk_records_end h (off + 4 + recordSize h n) ns) (length (acc @ [sl]) + length ns)"
      by blast
    show ?thesis using ns r c1 by (intro exI[of _ "n # ns"]) auto
  qed
qed

lemma parseTrkFile_records:
  assumes "length buf \<le> MAX_FILE_SIZE" "trk_parseHeader buf = Inr h"
    "take 5 (idString h) = ''TRACK''" "validateTrkHeader h = Inr ()"
  shows "\<exists>ns sls. (\<forall>(a, n) \<in> set (trk_records h 1000 ns). trk_record_at buf h a n) \<and>
     trk_stop buf h (trk_records_end h 1000 ns) (length ns) \<and>
     (0 < trk_nCount h \<longrightarrow> int (length ns) \<le> trk_nCount h) \<and>
     traverse (\<lambda>(a, n). readStreamline buf h (a + 4) n) (trk_records h 1000 ns) = Inr sls \<and>
     trk_loop buf h 1000 [] = Inr sls \<and>
     parseTrkFile buf = Inr \<lparr>trk_header = h, trk_streamlines = sls\<rparr>"
proof -
  obtain d0 d1 d2 v0 v1 v2 where dv: "trk_dim h = (d0, d1, d2)" "trk_voxelSize h = (v0, v1, v2)"
    by (metis prod_cases3)
  from assms(4) have ok: "0 \<le> nScalars h \<and> 0 \<le> nProperties h" "hdrSize h = 1000"
    using validate_ok_iff[OF dv] by auto
  from trk_loop_complete[OF ok(1), of 1000 buf "[]"]
  obtain ns where ns: "\<forall>(a, n) \<in> set (trk_records h 1000 ns). trk_record_at buf h a n"
    "0 < trk_nCount h \<longrightarrow> int (length ns) \<le> trk_nCount h"
    "trk_stop buf h (trk_records_end h 1000 ns) (length ns)"
    by auto
  from trk_loop_records[OF ok(1), of 1000 ns buf "[]"] ns
  obtain sls where sls: "traverse (\<lambda>(a, n). readStreamline buf h (a + 4) n) (trk_records h 1000 ns) = Inr sls"
    "trk_loop buf h 1000 [] = Inr sls"
    by auto
  have "parseTrkFile buf = Inr \<lparr>trk_header = h, trk_streamlines = sls\<rparr>"
    using assms sls(2) by (simp add: parseTrkFile_def trk_parseStreamlines_def ok(2))
  with ns sls show ?thesis by blast
qed

lemma two_point_record_length: "length two_point_record = 28"
  by (simp add: two_point_record_def)

lemma trk_file_drop:
  "k = 996 + length hs \<Longrightarrow> drop (k + j) (trk_file sc d hs body) = drop j body"
proof -
  assume k: "k = 996 + length hs"
  have "trk_file sc d hs body = trk_file sc d hs [] @ body" by (simp add: trk_file_def)
  moreover have "length (trk_file sc d hs []) = k" by (simp add: trk_file_length k)
  ultimately show ?thesis by simp
qed

lemma trk_file_int32:
  assumes "length hs = 4" "j + 4 \<le> length body"
  shows "getInt32 (trk_file sc d hs body) (1000 + int j) True =
     Inr (toSigned 32 (uintLE (take 4 (drop j body))))"
proof -
  have "nat (1000 + int j) = (996 + length hs) + j" using assms by simp
  then show ?thesis
    using assms by (simp add: getInt32_def inRange_def trk_file_length uintAt_def trk_file_drop)
qed

lemma trk_file_float32:
  assumes "length hs = 4" "j + 4 \<le> length body"
  shows "getFloat32 (trk_file sc d hs body) (1000 + int j) True =
     Inr (float32OfBits (uintLE (take 4 (drop j body))))"
proof -
  have "nat (1000 + int j) = (996 + length hs) + j" using assms by simp
  then show ?thesis
    using assms by (simp add: getFloat32_def inRange_def trk_file_length uintAt_def trk_file_drop)
qed

lemma read_two_points_at:
  assumes "getFloat32 buf off True = Inr (Fin 1)" "getFloat32 buf (off + 4) True = Inr (Fin 2)"
    "getFloat32 buf (off + 8) True = Inr (Fin 0)" "getFloat32 buf (off + 12) True = Inr (Fin 0)"
    "getFloat32 buf (off + 12 + 4) True = Inr (Fin 0)"
    "getFloat32 buf (off + 12 + 8) True = Inr (Fin (1 / 2))"
  shows "readStreamline buf (plain_header 0 c z) off 2 = Inr two_point_streamline"
proof -
  have up: "[0..<6] = [0, 1, 2, 3, 4, 5]" by (simp add: upt_conv_Cons)
  show ?thesis
    using assms
    by (simp add: readStreamline_def pointStride_def up jint_def two_point_streamline_def)
qed

lemma trk_file_record:
  assumes "length hs = 4" "take 28 (drop j body) = two_point_record"
  shows "getInt32 (trk_file sc d hs body) (1000 + int j) True = Inr 2"
    and "readStreamline (trk_file sc d hs body) (plain_header 0 c z) (1004 + int j) 2 =
      Inr two_point_streamline"
proof -
  have "length (take 28 (drop j body)) = 28" by (simp add: assms(2) two_point_record_length)
  then have len: "j + 28 \<le> length body" by simp
  have t: "take 4 (drop (j + i) body) = take 4 (drop i two_point_record)" if "i + 4 \<le> 28" for i
  proof -
    have "take 4 (drop i (take 28 (drop j body))) = take 4 (drop (j + i) body)"
      using that by (simp add: drop_take add.commute)
    then show ?thesis by (simp add: assms(2))
  qed
  have "getInt32 (trk_file sc d hs body) (1000 + int (j + 0)) True =
     Inr (toSigned 32 (uintLE (take 4 (drop 0 two_point_record))))"
    using trk_file_int32[OF assms(1), of "j + 0" body sc d] len t[of 0] by simp
  then show "getInt32 (trk_file sc d hs body) (1000 + int j) True = Inr 2"
    by (simp add: two_point_record_def toSigned_def bval_def)
  have f: "getFloat32 (trk_file sc d hs body) (1000 + int (j + i)) True =
     Inr (float32OfBits (uintLE (take 4 (drop i two_point_record))))" if "i + 4 \<le> 28" for i
    using trk_file_float32[OF assms(1), of "j + i" body sc d] that len t[OF that] by simp
  have g: "getFloat32 (trk_file sc d hs body) (1004 + int j) True = Inr (Fin 1)"
    "getFloat32 (trk_file sc d hs body) (1004 + int j + 4) True = Inr (Fin 2)"
    "getFloat32 (trk_file sc d hs body) (1004 + int j + 8) True = Inr (Fin 0)"
    "getFloat32 (trk_file sc d hs body) (1004 + int j + 12) True = Inr (Fin 0)"
    "getFloat32 (trk_file sc d hs body) (1004 + int j + 12 + 4) True = Inr (Fin 0)"
    "getFloat32 (trk_file sc d hs body) (1004 + int j + 12 + 8) True = Inr (Fin (1 / 2))"
    using f[of 4] f[of 8] f[of 12] f[of 16] f[of 20] f[of 24]
    by (simp_all add: two_point_record_def float32OfBits_def bval_def pow2_def)
  show "readStreamline (trk_file sc d hs body) (plain_header 0 c z) (1004 + int j) 2 =
      Inr two_point_streamline"
    by (rule read_two_points_at) (rule g)+
qed

lemma trk_file_next_count:
  assumes "length body = 28" "4 \<le> length rest"
  shows "getInt32 (trk_file sc d size1000 (body @ rest)) 1028 True =
     Inr (toSigned 32 (uintLE (take 4 rest)))"
  using trk_file_int32[of size1000 28 "body @ rest" sc d] assms
  by (simp add: size1000_def)

lemma examples_header:
  "trk_parseHeader (trk_file (CHR 0x00) (CHR 0x00) size1000 body) = Inr (plain_header 0 0 1000)"
  "trk_parseHeader (trk_file (CHR 0x00) (CHR 0x01) size1000 body) = Inr (plain_header 0 1 1000)"
  by (simp_all add: size1000_def trk_file_header) (simp_all add: toSigned_def bval_def)

lemma one_record_file:
  assumes "F = trk_file sc d size1000 (two_point_record @ rest)"
  shows "getInt32 F 1000 True = Inr 2"
    and "readStreamline F (plain_header 0 c z) 1004 2 = Inr two_point_streamline"
    and "length F = 1028 + length rest"
    and "4 \<le> length rest \<Longrightarrow> getInt32 F 1028 True = Inr (toSigned 32 (uintLE (take 4 rest)))"
proof -
  have l: "length two_point_record = 28" by (rule two_point_record_length)
  have s: "length size1000 = 4" by (simp add: size1000_def)
  have t: "take 28 (drop 0 (two_point_record @ rest)) = two_point_record" by (simp add: l)
  show "getInt32 F 1000 True = Inr 2"
    using trk_file_record(1)[OF s t, of sc d] by (simp add: assms)
  show "readStreamline F (plain_header 0 c z) 1004 2 = Inr two_point_streamline"
    using trk_file_record(2)[OF s t, of sc d c z] by (simp add: assms)
  show "length F = 1028 + length rest" by (simp add: assms trk_file_length s l)
  show "4 \<le> length rest \<Longrightarrow> getInt32 F 1028 True = Inr (toSigned 32 (uintLE (take 4 rest)))"
    by (simp add: assms trk_file_next_count l)
qed

lemma second_record_file:
  shows "getInt32 trk_two_records 1028 True = Inr 2"
    and "readStreamline trk_two_records (plain_header 0 c z) 1032 2 = Inr two_point_streamline"
proof -
  have l: "length two_point_record = 28" by (rule two_point_record_length)
  have s: "length size1000 = 4" by (simp add: size1000_def)
  have t: "take 28 (drop 28 (two_point_record @ two_point_record)) = two_point_record"
    by (simp add: l)
  show "getInt32 trk_two_records 1028 True = Inr 2"
    using trk_file_record(1)[OF s t, of "CHR 0x00" "CHR 0x00"] by (simp add: trk_two_records_def)
  show "readStreamline trk_two_records (plain_header 0 c z) 1032 2 = Inr two_point_streamline"
    using trk_file_record(2)[OF s t, of "CHR 0x00" "CHR 0x00" c z] by (simp add: trk_two_records_def)
qed

lemma readStreamline_properties:
  assumes "readStreamline buf h off n = Inr sl"
  shows "(nProperties h \<le> 0 \<longrightarrow> properties sl = None) \<and>
     (0 < nProperties h \<longrightarrow>
        (\<exists>props. properties sl = Some props \<and> length props = nat (nProperties h) \<and>
           (\<forall>p < nat (nProperties h).
              getFloat32 buf (off + n * pointStride h + 4 * int p) True = Inr (props ! p))))"
proof -
  from assms obtain props where
    t: "traverse (\<lambda>p. getFloat32 buf (off + n * pointStride h + 4 * int p) True)
             [0..<nat (nProperties h)] = Inr props"
    and sl: "properties sl = (if nProperties h > 0 then Some props else None)"
    by (auto simp: readStreamline_def split: sum.splits)
  have len: "length props = nat (nProperties h)" using traverse_length[OF t] by simp
  have "getFloat32 buf (off + n * pointStride h + 4 * int p) True = Inr (props ! p)"
    if "p < nat (nProperties h)" for p
    using traverse_nth[OF t, of p] that by simp
  then show ?thesis using sl len by auto
qed

lemma readStreamline_scalars:
  assumes "readStreamline buf h off n = Inr sl"
  shows "(nScalars h \<le> 0 \<longrightarrow> scalars sl = None) \<and>
     (0 < nScalars h \<longrightarrow>
        (\<exists>scs. scalars sl = Some scs \<and> length scs = nat (nScalars h) \<and>
           (\<forall>c < nat (nScalars h). length (scs ! c) = nat n \<and>
              (\<forall>i < nat n.
                 getFloat32 buf (off + int i * pointStride h + 12 + 4 * int c) True =
                   Inr (scs ! c ! i)))))"
proof -
  from assms obtain scs where
    t: "traverse (\<lambda>s. traverse (\<lambda>i. getFloat32 buf (off + int i * pointStride h + 12 + 4 * int s) True)
                            [0..<nat n]) [0..<nat (nScalars h)] = Inr scs"
    and sl: "scalars sl = (if scs \<noteq> [] then Some scs else None)"
    by (auto simp: readStreamline_def split: sum.splits)
  have len: "length scs = nat (nScalars h)" using traverse_length[OF t] by simp
  have row: "traverse (\<lambda>i. getFloat32 buf (off + int i * pointStride h + 12 + 4 * int c) True)
      [0..<nat n] = Inr (scs ! c)" if "c < nat (nScalars h)" for c
    using traverse_nth[OF t, of c] that by simp
  have cell: "length (scs ! c) = nat n \<and>
      (\<forall>i < nat n. getFloat32 buf (off + int i * pointStride h + 12 + 4 * int c) True =
         Inr (scs ! c ! i))" if c: "c < nat (nScalars h)" for c
  proof (intro conjI allI impI)
    show "length (scs ! c) = nat n" using traverse_length[OF row[OF c]] by simp
    fix i assume "i < nat n"
    then show "getFloat32 buf (off + int i * pointStride h + 12 + 4 * int c) True =
         Inr (scs ! c ! i)"
      using traverse_nth[OF row[OF c], of i] by simp
  qed
  have none: "scalars sl = None" if "nScalars h \<le> 0"
    using that len sl by simp
  have some: "scalars sl = Some scs" if "0 < nScalars h"
  proof -
    have "scs \<noteq> []" using that len by auto
    then show ?thesis using sl by simp
  qed
  show ?thesis using none some len cell by blast
qed

lemma one_scalar_file:
  shows "length trk_one_scalar = 1020"
    and "trk_parseHeader trk_one_scalar = Inr (plain_header 1 0 1000)"
    and "getInt32 trk_one_scalar 1000 True = Inr 1"
    and "readStreamline trk_one_scalar (plain_header 1 0 1000) 1004 1 = Inr scalar_streamline"
proof -
  have s: "length size1000 = 4" by (simp add: size1000_def)
  show len: "length trk_one_scalar = 1020"
    by (simp add: trk_one_scalar_def trk_file_length s)
  show "trk_parseHeader trk_one_scalar = Inr (plain_header 1 0 1000)"
    by (simp add: trk_one_scalar_def size1000_def trk_file_header) (simp add: toSigned_def bval_def)
  show "getInt32 trk_one_scalar 1000 True = Inr 1"
    unfolding trk_one_scalar_def using trk_file_int32[OF s, of 0 _ "CHR 0x01" "CHR 0x00"]
    by (simp add: toSigned_def bval_def)
  have f: "getFloat32 trk_one_scalar 1004 True = Inr (Fin 1)"
    "getFloat32 trk_one_scalar 1008 True = Inr (Fin 2)"
    "getFloat32 trk_one_scalar 1012 True = Inr (Fin 0)"
    "getFloat32 trk_one_scalar 1016 True = Inr (Fin (1 / 2))"
    unfolding trk_one_scalar_def
    using trk_file_float32[OF s, of 4 _ "CHR 0x01" "CHR 0x00"]
      trk_file_float32[OF s, of 8 _ "CHR 0x01" "CHR 0x00"]
      trk_file_float32[OF s, of 12 _ "CHR 0x01" "CHR 0x00"]
      trk_file_float32[OF s, of 16 _ "CHR 0x01" "CHR 0x00"]
    by (simp_all add: float32OfBits_def bval_def pow2_def)
  have up: "[0..<3] = [0, 1, 2]" by (simp add: upt_conv_Cons)
  show "readStreamline trk_one_scalar (plain_header 1 0 1000) 1004 1 = Inr scalar_streamline"
    by (simp add: readStreamline_def pointStride_def up jint_def f scalar_streamline_def)
qed

text \<open>
  C4. In the TRK body loop, a point count read outside (0, 100000] ends the loop with the
  streamlines collected so far, and so do a positive declared count that has been reached
  and a buffer that ends before the count or before the end of the record. A record whose
  count is in range and which fits is decoded, appended, and the loop goes on after it; the
  decoded streamline has that count, and its coordinates, scalars and properties are the
  floats read from the record. So when records lie end to end from an offset and the loop
  stops after them, the loop returns what it had collected followed by exactly these
  records decoded, in order.
  \<open>parseStreamlines\<close> starts at the header size, or at 1000 when that is 0. None of the stops
  is an error: on every buffer whose header passes the checks, \<open>parseTrkFile\<close> returns the
  header with the records decoded from offset 1000 up to the first stop, at most the
  declared count of them when that is positive.
\<close>

theorem trk_decoding_stops:
  "(getInt32 buf off True = Inr n \<and> (n \<le> 0 \<or> 100000 < n) \<longrightarrow>
      trk_loop buf h off acc = Inr acc) \<and>
   (0 < trk_nCount h \<and> trk_nCount h \<le> int (length acc) \<longrightarrow> trk_loop buf h off acc = Inr acc) \<and>
   (int (length buf) \<le> off \<or> int (length buf) < off + 4 \<or>
    (getInt32 buf off True = Inr n \<and>
     int (length buf) < off + 4 + (n * (4 * (3 + nScalars h)) + 4 * nProperties h)) \<longrightarrow>
      trk_loop buf h off acc = Inr acc) \<and>
   (off < int (length buf) \<and> (0 < trk_nCount h \<longrightarrow> int (length acc) < trk_nCount h) \<and>
    trk_record_at buf h off n \<and> readStreamline buf h (off + 4) n = Inr sl \<longrightarrow>
      trk_loop buf h off acc = trk_loop buf h (off + 4 + recordSize h n) (acc @ [sl])) \<and>
   (readStreamline buf h off n = Inr sl \<longrightarrow>
      numPoints sl = jint n \<and> length (points sl) = 3 * nat n \<and>
      (\<forall>k < 3 * nat n.
         getFloat32 buf (off + int (k div 3) * pointStride h + 4 * int (k mod 3)) True =
           Inr (points sl ! k)) \<and>
      (nScalars h \<le> 0 \<longrightarrow> scalars sl = None) \<and>
      (0 < nScalars h \<longrightarrow>
         (\<exists>scs. scalars sl = Some scs \<and> length scs = nat (nScalars h) \<and>
            (\<forall>c < nat (nScalars h). length (scs ! c) = nat n \<and>
               (\<forall>i < nat n.
                  getFloat32 buf (off + int i * pointStride h + 12 + 4 * int c) True =
                    Inr (scs ! c ! i))))) \<and>
      (nProperties h \<le> 0 \<longrightarrow> properties sl = None) \<and>
      (0 < nProperties h \<longrightarrow>
         (\<exists>props. properties sl = Some props \<and> length props = nat (nProperties h) \<and>
            (\<forall>p < nat (nProperties h).
               getFloat32 buf (off + n * pointStride h + 4 * int p) True = Inr (props ! p))))) \<and>
   (0 \<le> nScalars h \<and> 0 \<le> nProperties h \<and> 0 \<le> off \<and>
    (\<forall>(a, m) \<in> set (trk_records h off ns). trk_record_at buf h a m) \<and>
    (0 < trk_nCount h \<longrightarrow> int (length acc + length ns) \<le> trk_nCount h) \<and>
    trk_stop buf h (trk_records_end h off ns) (length acc + length ns) \<longrightarrow>
      (\<exists>sls. traverse (\<lambda>(a, m). readStreamline buf h (a + 4) m) (trk_records h off ns) = Inr sls \<and>
         trk_loop buf h off acc = Inr (acc @ sls))) \<and>
   trk_parseStreamlines buf h = trk_loop buf h (if hdrSize h = 0 then 1000 else hdrSize h) [] \<and>
   (length buf \<le> MAX_FILE_SIZE \<and> trk_parseHeader buf = Inr h \<and>
    take 5 (idString h) = ''TRACK'' \<and> validateTrkHeader h = Inr () \<longrightarrow>
      (\<exists>ms sls. (\<forall>(a, m) \<in> set (trk_records h 1000 ms). trk_record_at buf h a m) \<and>
         trk_stop buf h (trk_records_end h 1000 ms) (length ms) \<and>
         (0 < trk_nCount h \<longrightarrow> int (length ms) \<le> trk_nCount h) \<and>
         traverse (\<lambda>(a, m). readStreamline buf h (a + 4) m) (trk_records h 1000 ms) = Inr sls \<and>
         trk_loop buf h 1000 [] = Inr sls \<and>
         parseTrkFile buf = Inr \<lparr>trk_header = h, trk_streamlines = sls\<rparr>))"
proof -
  have c1: "(getInt32 buf off True = Inr n \<and> (n \<le> 0 \<or> 100000 < n) \<longrightarrow>
      trk_loop buf h off acc = Inr acc)"
    using trk_loop_bad_count[of buf off n h acc] by auto
  have c2: "(0 < trk_nCount h \<and> trk_nCount h \<le> int (length acc) \<longrightarrow> trk_loop buf h off acc = Inr acc)"
    using trk_loop_count_reached[of h acc buf off] by auto
  have c3: "(int (length buf) \<le> off \<or> int (length buf) < off + 4 \<or>
    (getInt32 buf off True = Inr n \<and>
     int (length buf) < off + 4 + (n * (4 * (3 + nScalars h)) + 4 * nProperties h)) \<longrightarrow>
      trk_loop buf h off acc = Inr acc)"
    using trk_loop_exhausted[of buf off n h acc] by auto
  have c4: "(off < int (length buf) \<and> (0 < trk_nCount h \<longrightarrow> int (length acc) < trk_nCount h) \<and>
    trk_record_at buf h off n \<and> readStreamline buf h (off + 4) n = Inr sl \<longrightarrow>
      trk_loop buf h off acc = trk_loop buf h (off + 4 + recordSize h n) (acc @ [sl]))"
    using trk_loop_step[of off buf h acc n sl] by auto
  have c5: "(readStreamline buf h off n = Inr sl \<longrightarrow>
      numPoints sl = jint n \<and> length (points sl) = 3 * nat n \<and>
      (\<forall>k < 3 * nat n.
         getFloat32 buf (off + int (k div 3) * pointStride h + 4 * int (k mod 3)) True =
           Inr (points sl ! k)) \<and>
      (nScalars h \<le> 0 \<longrightarrow> scalars sl = None) \<and>
      (0 < nScalars h \<longrightarrow>
         (\<exists>scs. scalars sl = Some scs \<and> length scs = nat (nScalars h) \<and>
            (\<forall>c < nat (nScalars h). length (scs ! c) = nat n \<and>
               (\<forall>i < nat n.
                  getFloat32 buf (off + int i * pointStride h + 12 + 4 * int c) True =
                    Inr (scs ! c ! i))))) \<and>
      (nProperties h \<le> 0 \<longrightarrow> properties sl = None) \<and>
      (0 < nProperties h \<longrightarrow>
         (\<exists>props. properties sl = Some props \<and> length props = nat (nProperties h) \<and>
            (\<forall>p < nat (nProperties h).
               getFloat32 buf (off + n * pointStride h + 4 * int p) True = Inr (props ! p)))))"
    using readStreamline_shape[of buf h off n sl] readStreamline_points[of buf h off n sl]
      readStreamline_scalars[of buf h off n sl] readStreamline_properties[of buf h off n sl]
    by simp
  have c6: "(0 \<le> nScalars h \<and> 0 \<le> nProperties h \<and> 0 \<le> off \<and>
    (\<forall>(a, m) \<in> set (trk_records h off ns). trk_record_at buf h a m) \<and>
    (0 < trk_nCount h \<longrightarrow> int (length acc + length ns) \<le> trk_nCount h) \<and>
    trk_stop buf h (trk_records_end h off ns) (length acc + length ns) \<longrightarrow>
      (\<exists>sls. traverse (\<lambda>(a, m). readStreamline buf h (a + 4) m) (trk_records h off ns) = Inr sls \<and>
         trk_loop buf h off acc = Inr (acc @ sls)))"
  proof
    assume a: "0 \<le> nScalars h \<and> 0 \<le> nProperties h \<and> 0 \<le> off \<and>
      (\<forall>(a, m) \<in> set (trk_records h off ns). trk_record_at buf h a m) \<and>
      (0 < trk_nCount h \<longrightarrow> int (length acc + length ns) \<le> trk_nCount h) \<and>
      trk_stop buf h (trk_records_end h off ns) (length acc + length ns)"
    then have h: "0 \<le> nScalars h \<and> 0 \<le> nProperties h" by simp
    from a show "\<exists>sls. traverse (\<lambda>(a, m). readStreamline buf h (a + 4) m) (trk_records h off ns) = Inr sls \<and>
         trk_loop buf h off acc = Inr (acc @ sls)"
      by (intro trk_loop_records[OF h]) auto
  qed
  have c7: "trk_parseStreamlines buf h = trk_loop buf h (if hdrSize h = 0 then 1000 else hdrSize h) []"
    by (simp add: trk_parseStreamlines_def)
  have c8: "(length buf \<le> MAX_FILE_SIZE \<and> trk_parseHeader buf = Inr h \<and>
    take 5 (idString h) = ''TRACK'' \<and> validateTrkHeader h = Inr () \<longrightarrow>
      (\<exists>ms sls. (\<forall>(a, m) \<in> set (trk_records h 1000 ms). trk_record_at buf h a m) \<and>
         trk_stop buf h (trk_records_end h 1000 ms) (length ms) \<and>
         (0 < trk_nCount h \<longrightarrow> int (length ms) \<le> trk_nCount h) \<and>
         traverse (\<lambda>(a, m). readStreamline buf h (a + 4) m) (trk_records h 1000 ms) = Inr sls \<and>
         trk_loop buf h 1000 [] = Inr sls \<and>
         parseTrkFile buf = Inr \<lparr>trk_header = h, trk_streamlines = sls\<rparr>))"
    using parseTrkFile_records[of buf h] by blast
  show ?thesis
    by (intro conjI; (rule c1 | rule c2 | rule c3 | rule c4 | rule c5 | rule c6 | rule c7 | rule c8))
qed

theorem trk_decoding_stops_witness:
  "parseTrkFile trk_bad_count_after =
     Inr \<lparr>trk_header = plain_header 0 0 1000, trk_streamlines = [two_point_streamline]\<rparr> \<and>
   parseTrkFile trk_negative_count_after =
     Inr \<lparr>trk_header = plain_header 0 0 1000, trk_streamlines = [two_point_streamline]\<rparr> \<and>
   parseTrkFile trk_declares_one =
     Inr \<lparr>trk_header = plain_header 0 1 1000, trk_streamlines = [two_point_streamline]\<rparr> \<and>
   parseTrkFile trk_truncated =
     Inr \<lparr>trk_header = plain_header 0 0 1000, trk_streamlines = [two_point_streamline]\<rparr> \<and>
   parseTrkFile trk_two_records =
     Inr \<lparr>trk_header = plain_header 0 0 1000,
          trk_streamlines = [two_point_streamline, two_point_streamline]\<rparr> \<and>
   trk_parseStreamlines trk_negative_count_after (plain_header 0 0 0) = Inr [two_point_streamline] \<and>
   parseTrkFile trk_one_scalar =
     Inr \<lparr>trk_header = plain_header 1 0 1000, trk_streamlines = [scalar_streamline]\<rparr>"
proof -
  have rs: "recordSize (plain_header 0 c z) 2 = 24" for c z
    by (simp add: recordSize_def pointStride_def)
  have l: "length two_point_record = 28" by (rule two_point_record_length)
  have r0: "parseTrkFile trk_bad_count_after =
     Inr \<lparr>trk_header = plain_header 0 0 1000, trk_streamlines = [two_point_streamline]\<rparr>"
  proof -
    note f = one_record_file[OF trk_bad_count_after_def]
    note T = trk_decoding_stops[where buf = trk_bad_count_after and h = "plain_header 0 0 1000"
        and off = 1000 and acc = "[]" and ns = "[2]" and n = 2 and sl = two_point_streamline]
    have hd: "trk_parseHeader trk_bad_count_after = Inr (plain_header 0 0 1000)"
      by (simp add: trk_bad_count_after_def examples_header)
    have rc: "trk_record_at trk_bad_count_after (plain_header 0 0 1000) 1000 2"
      by (simp add: trk_record_at_def f)
    have st: "trk_stop trk_bad_count_after (plain_header 0 0 1000) 1028 1"
      by (simp add: trk_stop_def f(4)) (simp add: toSigned_def bval_def)
    from rc st T have "trk_loop trk_bad_count_after (plain_header 0 0 1000) 1000 [] = Inr [two_point_streamline]"
      by (simp add: rs f(2))
    moreover from T[THEN conjunct2, THEN conjunct2, THEN conjunct2, THEN conjunct2,
        THEN conjunct2, THEN conjunct2, THEN conjunct2]
    have "\<exists>sls. trk_loop trk_bad_count_after (plain_header 0 0 1000) 1000 [] = Inr sls \<and>
        parseTrkFile trk_bad_count_after = Inr \<lparr>trk_header = plain_header 0 0 1000, trk_streamlines = sls\<rparr>"
      by (auto simp: hd f(3) l MAX_FILE_SIZE_def validate_plain)
    ultimately show ?thesis by auto
  qed
  have r1: "parseTrkFile trk_negative_count_after =
     Inr \<lparr>trk_header = plain_header 0 0 1000, trk_streamlines = [two_point_streamline]\<rparr>"
  proof -
    note f = one_record_file[OF trk_negative_count_after_def]
    note T = trk_decoding_stops[where buf = trk_negative_count_after and h = "plain_header 0 0 1000"
        and off = 1000 and acc = "[]" and ns = "[2]" and n = 2 and sl = two_point_streamline]
    have hd: "trk_parseHeader trk_negative_count_after = Inr (plain_header 0 0 1000)"
      by (simp add: trk_negative_count_after_def examples_header)
    have rc: "trk_record_at trk_negative_count_after (plain_header 0 0 1000) 1000 2"
      by (simp add: trk_record_at_def f)
    have st: "trk_stop trk_negative_count_after (plain_header 0 0 1000) 1028 1"
      by (simp add: trk_stop_def f(4)) (simp add: toSigned_def bval_def)
    from rc st T have "trk_loop trk_negative_count_after (plain_header 0 0 1000) 1000 [] = Inr [two_point_streamline]"
      by (simp add: rs f(2))
    moreover from T[THEN conjunct2, THEN conjunct2, THEN conjunct2, THEN conjunct2,
        THEN conjunct2, THEN conjunct2, THEN conjunct2]
    have "\<exists>sls. trk_loop trk_negative_count_after (plain_header 0 0 1000) 1000 [] = Inr sls \<and>
        parseTrkFile trk_negative_count_after = Inr \<lparr>trk_header = plain_header 0 0 1000, trk_streamlines = sls\<rparr>"
      by (auto simp: hd f(3) l MAX_FILE_SIZE_def validate_plain)
    ultimately show ?thesis by auto
  qed
  have r2: "parseTrkFile trk_declares_one =
     Inr \<lparr>trk_header = plain_header 0 1 1000, trk_streamlines = [two_point_streamline]\<rparr>"
  proof -
    note f = one_record_file[OF trk_declares_one_def]
    note T = trk_decoding_stops[where buf = trk_declares_one and h = "plain_header 0 1 1000"
        and off = 1000 and acc = "[]" and ns = "[2]" and n = 2 and sl = two_point_streamline]
    have hd: "trk_parseHeader trk_declares_one = Inr (plain_header 0 1 1000)"
      by (simp add: trk_declares_one_def examples_header)
    have rc: "trk_record_at trk_declares_one (plain_header 0 1 1000) 1000 2"
      by (simp add: trk_record_at_def f)
    have st: "trk_stop trk_declares_one (plain_header 0 1 1000) 1028 1"
      by (simp add: trk_stop_def)
    from rc st T have "trk_loop trk_declares_one (plain_header 0 1 1000) 1000 [] = Inr [two_point_streamline]"
      by (simp add: rs f(2))
    moreover from T[THEN conjunct2, THEN conjunct2, THEN conjunct2, THEN conjunct2,
        THEN conjunct2, THEN conjunct2, THEN conjunct2]
    have "\<exists>sls. trk_loop trk_declares_one (plain_header 0 1 1000) 1000 [] = Inr sls \<and>
        parseTrkFile trk_declares_one = Inr \<lparr>trk_header = plain_header 0 1 1000, trk_streamlines = sls\<rparr>"
      by (auto simp: hd f(3) l MAX_FILE_SIZE_def validate_plain)
    ultimately show ?thesis by auto
  qed
  have r3: "parseTrkFile trk_truncated =
     Inr \<lparr>trk_header = plain_header 0 0 1000, trk_streamlines = [two_point_streamline]\<rparr>"
  proof -
    note f = one_record_file[OF trk_truncated_def]
    note T = trk_decoding_stops[where buf = trk_truncated and h = "plain_header 0 0 1000"
        and off = 1000 and acc = "[]" and ns = "[2]" and n = 2 and sl = two_point_streamline]
    have hd: "trk_parseHeader trk_truncated = Inr (plain_header 0 0 1000)"
      by (simp add: trk_truncated_def examples_header)
    have rc: "trk_record_at trk_truncated (plain_header 0 0 1000) 1000 2"
      by (simp add: trk_record_at_def f)
    have st: "trk_stop trk_truncated (plain_header 0 0 1000) 1028 1"
      by (simp add: trk_stop_def f(3) f(4) l) (simp add: two_point_record_def toSigned_def bval_def)
    from rc st T have "trk_loop trk_truncated (plain_header 0 0 1000) 1000 [] = Inr [two_point_streamline]"
      by (simp add: rs f(2))
    moreover from T[THEN conjunct2, THEN conjunct2, THEN conjunct2, THEN conjunct2,
        THEN conjunct2, THEN conjunct2, THEN conjunct2]
    have "\<exists>sls. trk_loop trk_truncated (plain_header 0 0 1000) 1000 [] = Inr sls \<and>
        parseTrkFile trk_truncated = Inr \<lparr>trk_header = plain_header 0 0 1000, trk_streamlines = sls\<rparr>"
      by (auto simp: hd f(3) l MAX_FILE_SIZE_def validate_plain)
    ultimately show ?thesis by auto
  qed
  have r4: "parseTrkFile trk_two_records =
     Inr \<lparr>trk_header = plain_header 0 0 1000,
          trk_streamlines = [two_point_streamline, two_point_streamline]\<rparr>"
  proof -
    note f = one_record_file[OF trk_two_records_def]
    note g = second_record_file
    note T = trk_decoding_stops[where buf = trk_two_records and h = "plain_header 0 0 1000"
        and off = 1000 and acc = "[]" and ns = "[2, 2]" and n = 2 and sl = two_point_streamline]
    have hd: "trk_parseHeader trk_two_records = Inr (plain_header 0 0 1000)"
      by (simp add: trk_two_records_def examples_header)
    have rc: "trk_record_at trk_two_records (plain_header 0 0 1000) 1000 2"
      "trk_record_at trk_two_records (plain_header 0 0 1000) 1028 2"
      by (simp_all add: trk_record_at_def f g l)
    have st: "trk_stop trk_two_records (plain_header 0 0 1000) 1056 (Suc (Suc 0))"
      by (simp add: trk_stop_def f(3) l)
    from rc st T have "trk_loop trk_two_records (plain_header 0 0 1000) 1000 [] =
        Inr [two_point_streamline, two_point_streamline]"
      by (simp add: rs f(2) g(2))
    moreover from T[THEN conjunct2, THEN conjunct2, THEN conjunct2, THEN conjunct2,
        THEN conjunct2, THEN conjunct2, THEN conjunct2]
    have "\<exists>sls. trk_loop trk_two_records (plain_header 0 0 1000) 1000 [] = Inr sls \<and>
        parseTrkFile trk_two_records =
          Inr \<lparr>trk_header = plain_header 0 0 1000, trk_streamlines = sls\<rparr>"
      by (auto simp: hd f(3) l MAX_FILE_SIZE_def validate_plain)
    ultimately show ?thesis by auto
  qed
  have r5: "trk_parseStreamlines trk_negative_count_after (plain_header 0 0 0) =
      Inr [two_point_streamline]"
  proof -
    note f = one_record_file[OF trk_negative_count_after_def]
    note T = trk_decoding_stops[where buf = trk_negative_count_after and h = "plain_header 0 0 0"
        and off = 1000 and acc = "[]" and ns = "[2]" and n = 2 and sl = two_point_streamline]
    have rc: "trk_record_at trk_negative_count_after (plain_header 0 0 0) 1000 2"
      by (simp add: trk_record_at_def f)
    have st: "trk_stop trk_negative_count_after (plain_header 0 0 0) 1028 1"
      by (simp add: trk_stop_def f(4)) (simp add: toSigned_def bval_def)
    from T rc st show ?thesis
      by (simp add: rs f(2))
  qed
  have r6: "parseTrkFile trk_one_scalar =
     Inr \<lparr>trk_header = plain_header 1 0 1000, trk_streamlines = [scalar_streamline]\<rparr>"
  proof -
    note f = one_scalar_file
    note T = trk_decoding_stops[where buf = trk_one_scalar and h = "plain_header 1 0 1000"
        and off = 1000 and acc = "[]" and ns = "[1]" and n = 1 and sl = scalar_streamline]
    have rc: "trk_record_at trk_one_scalar (plain_header 1 0 1000) 1000 1"
      by (simp add: trk_record_at_def f)
    have st: "trk_stop trk_one_scalar (plain_header 1 0 1000) 1020 1"
      by (simp add: trk_stop_def f(1))
    have rs1: "recordSize (plain_header 1 0 1000) 1 = 16"
      by (simp add: recordSize_def pointStride_def)
    from T rc st have "trk_loop trk_one_scalar (plain_header 1 0 1000) 1000 [] =
        Inr [scalar_streamline]"
      by (simp add: rs1 f(4))
    moreover from T[THEN conjunct2, THEN conjunct2, THEN conjunct2, THEN conjunct2,
        THEN conjunct2, THEN conjunct2, THEN conjunct2]
    have "\<exists>sls. trk_loop trk_one_scalar (plain_header 1 0 1000) 1000 [] = Inr sls \<and>
        parseTrkFile trk_one_scalar =
          Inr \<lparr>trk_header = plain_header 1 0 1000, trk_streamlines = sls\<rparr>"
      by (auto simp: f(1) f(2) MAX_FILE_SIZE_def validate_plain)
    ultimately show ?thesis by auto
  qed
  show ?thesis using r0 r1 r2 r3 r4 r5 r6 by simp
qed

subsection \<open>The TCK parser\<close>






lemma reader_error: "reader w buf off le = Inl e \<Longrightarrow> e = RangeError"
  by (cases w) (auto simp: getFloat32_def getFloat64_def split: if_splits)

lemma readTriplet_error: "readTriplet w le buf off = Inl e \<Longrightarrow> e = RangeError"
  by (auto simp: readTriplet_def split: sum.splits dest: reader_error)

lemma jnat_div3: "3 dvd length cur \<Longrightarrow> jdiv (jnat (length cur)) (Fin 3) = jnat (length cur div 3)"
proof -
  assume "3 dvd length cur"
  then have "real (length cur div 3) = real (length cur) / 3"
    by (simp add: real_of_nat_div)
  then show ?thesis by (simp add: jnat_def)
qed

lemma finish_ok: "3 dvd length cur \<Longrightarrow> 6 \<le> length cur \<Longrightarrow> tck_record_ok (finish cur)"
  unfolding tck_record_ok_def
  by (intro exI[of _ "length cur div 3"]) (auto simp: finish_def jnat_div3)

lemma pushIfLine_ok:
  "3 dvd length cur \<Longrightarrow> \<forall>s \<in> set acc. tck_record_ok s \<Longrightarrow>
     \<forall>s \<in> set (pushIfLine cur acc). tck_record_ok s"
  by (auto simp: pushIfLine_def finish_ok)

lemma tck_loop_inv:
  "3 dvd length cur \<Longrightarrow> \<forall>s \<in> set acc. tck_record_ok s \<Longrightarrow>
     (case tck_loop buf w le off cur acc of
        Inl e \<Rightarrow> e = RangeError \<or> e = StreamlineTooLong
      | Inr (cur', acc') \<Rightarrow> 3 dvd length cur' \<and> (\<forall>s \<in> set acc'. tck_record_ok s))"
proof (induction buf w le off cur acc rule: tck_loop.induct)
  case (1 buf w le off cur acc)
  show ?case
  proof (cases "off + int (bytesPerFloat w * 3) \<le> int (length buf)")
    case False
    then show ?thesis using "1.prems" by (subst tck_loop.simps) simp
  next
    case c: True
    show ?thesis
    proof (cases "readTriplet w le buf off")
      case (Inl e)
      then show ?thesis using c readTriplet_error[OF Inl] by (subst tck_loop.simps) simp
    next
      case (Inr t)
      obtain x y z where t: "t = (x, y, z)" by (cases t) auto
      note rt = Inr[unfolded t]
      consider (inf) "\<not> isFinite x \<and> \<not> isNaN x"
        | (nan) "\<not> (\<not> isFinite x \<and> \<not> isNaN x)" "isNaN x \<or> isNaN y \<or> isNaN z"
        | (long) "\<not> (\<not> isFinite x \<and> \<not> isNaN x)" "\<not> (isNaN x \<or> isNaN y \<or> isNaN z)"
            "length (cur @ [x, y, z]) > 300000"
        | (pt) "\<not> (\<not> isFinite x \<and> \<not> isNaN x)" "\<not> (isNaN x \<or> isNaN y \<or> isNaN z)"
            "\<not> length (cur @ [x, y, z]) > 300000"
        by blast
      then show ?thesis
      proof cases
        case inf
        then show ?thesis using c rt "1.prems" pushIfLine_ok[of cur acc]
          by (subst tck_loop.simps) simp
      next
        case nan
        have "case tck_loop buf w le (off + int (bytesPerFloat w * 3)) [] (pushIfLine cur acc) of
            Inl e \<Rightarrow> e = RangeError \<or> e = StreamlineTooLong
          | Inr (cur', acc') \<Rightarrow> 3 dvd length cur' \<and> (\<forall>s \<in> set acc'. tck_record_ok s)"
          using nan c rt "1.prems" pushIfLine_ok[of cur acc]
          by (intro "1.IH"(1)[OF c rt refl refl]) auto
        moreover have "tck_loop buf w le off cur acc =
            tck_loop buf w le (off + int (bytesPerFloat w * 3)) [] (pushIfLine cur acc)"
          using nan c rt by (subst tck_loop.simps) auto
        ultimately show ?thesis by simp
      next
        case long
        then show ?thesis using c rt by (subst tck_loop.simps) simp
      next
        case pt
        have "case tck_loop buf w le (off + int (bytesPerFloat w * 3)) (cur @ [x, y, z]) acc of
            Inl e \<Rightarrow> e = RangeError \<or> e = StreamlineTooLong
          | Inr (cur', acc') \<Rightarrow> 3 dvd length cur' \<and> (\<forall>s \<in> set acc'. tck_record_ok s)"
        proof -
          have "3 dvd length cur + 3" using "1.prems"(1) by simp
          then have "3 dvd length (cur @ [x, y, z])" by (simp add: numeral_3_eq_3)
          then show ?thesis using pt "1.prems"(2)
            by (intro "1.IH"(2)[OF c rt refl refl]) simp_all
        qed
        moreover have "tck_loop buf w le off cur acc =
            tck_loop buf w le (off + int (bytesPerFloat w * 3)) (cur @ [x, y, z]) acc"
          using pt c rt by (subst tck_loop.simps) auto
        ultimately show ?thesis by simp
      qed
    qed
  qed
qed

text \<open>
  One turn of the TCK loop, case by case, and the end of the buffer. After the loop
  \<open>parseStreamlines\<close> appends \<open>currentPoints\<close> once more when it holds two points or more.
\<close>

lemma tck_loop_step:
  assumes "off + int (bytesPerFloat w * 3) \<le> int (length buf)"
    and "readTriplet w le buf off = Inr (x, y, z)"
  shows "x = PosInf \<or> x = NegInf \<Longrightarrow>
      tck_loop buf w le off cur acc = Inr (cur, pushIfLine cur acc)"
    and "x \<noteq> PosInf \<Longrightarrow> x \<noteq> NegInf \<Longrightarrow> isNaN x \<or> isNaN y \<or> isNaN z \<Longrightarrow>
      tck_loop buf w le off cur acc =
        tck_loop buf w le (off + int (bytesPerFloat w * 3)) [] (pushIfLine cur acc)"
    and "isFinite x \<Longrightarrow> \<not> isNaN y \<Longrightarrow> \<not> isNaN z \<Longrightarrow> 300000 < length cur + 3 \<Longrightarrow>
      tck_loop buf w le off cur acc = Inl StreamlineTooLong"
    and "isFinite x \<Longrightarrow> \<not> isNaN y \<Longrightarrow> \<not> isNaN z \<Longrightarrow> length cur + 3 \<le> 300000 \<Longrightarrow>
      tck_loop buf w le off cur acc =
        tck_loop buf w le (off + int (bytesPerFloat w * 3)) (cur @ [x, y, z]) acc"
proof -
  show "x = PosInf \<or> x = NegInf \<Longrightarrow>
      tck_loop buf w le off cur acc = Inr (cur, pushIfLine cur acc)"
    using assms by (subst tck_loop.simps) auto
  show "x \<noteq> PosInf \<Longrightarrow> x \<noteq> NegInf \<Longrightarrow> isNaN x \<or> isNaN y \<or> isNaN z \<Longrightarrow>
      tck_loop buf w le off cur acc =
        tck_loop buf w le (off + int (bytesPerFloat w * 3)) [] (pushIfLine cur acc)"
    using assms by (subst tck_loop.simps) (cases x, auto)
  show "isFinite x \<Longrightarrow> \<not> isNaN y \<Longrightarrow> \<not> isNaN z \<Longrightarrow> 300000 < length cur + 3 \<Longrightarrow>
      tck_loop buf w le off cur acc = Inl StreamlineTooLong"
    using assms by (subst tck_loop.simps) (cases x, auto)
  show "isFinite x \<Longrightarrow> \<not> isNaN y \<Longrightarrow> \<not> isNaN z \<Longrightarrow> length cur + 3 \<le> 300000 \<Longrightarrow>
      tck_loop buf w le off cur acc =
        tck_loop buf w le (off + int (bytesPerFloat w * 3)) (cur @ [x, y, z]) acc"
    using assms by (subst tck_loop.simps) (cases x, auto)
qed

lemma tck_loop_end:
  "\<not> off + int (bytesPerFloat w * 3) \<le> int (length buf) \<Longrightarrow>
     tck_loop buf w le off cur acc = Inr (cur, acc)"
  by (subst tck_loop.simps) simp

lemma tck_parseStreamlines_inv:
  "case tck_parseStreamlines buf h of
     Inl e \<Rightarrow> e = RangeError \<or> e = StreamlineTooLong \<or> e = InvalidDatatypeConfig (tck_datatype h)
   | Inr sl \<Rightarrow> \<forall>s \<in> set sl. tck_record_ok s"
proof (cases "DATA_TYPES (tck_datatype h)")
  case (Config w le)
  show ?thesis
  proof (cases "fileOffset h")
    case None
    then show ?thesis using Config by (simp add: tck_parseStreamlines_def)
  next
    case (Some off)
    show ?thesis
      using tck_loop_inv[of "[]" "[]" buf w le off] Config Some
      by (auto simp: tck_parseStreamlines_def split: sum.splits dest: pushIfLine_ok)
  qed
qed (simp_all add: tck_parseStreamlines_def)






text \<open>The example files, evaluated.\<close>

lemma tck_two_points_inf_length: "length tck_two_points_inf = 83"
  by (simp add: tck_two_points_inf_def tck_text_def inf_triplet_def)

lemma tck_two_points_inf_end:
  "findEnd tck_two_points_inf (min (length tck_two_points_inf) 10000) 0 = Some 47"
  by (simp add: tck_two_points_inf_def tck_text_def inf_triplet_def findEnd.simps byteAt_def)

lemma tck_two_points_inf_lines:
  "headerLines tck_two_points_inf 47 =
     [''mrtrix tracks'', ''datatype: Float32LE'', ''count: 1'', ''END'']"
  by (simp add: headerLines_def tck_two_points_inf_def tck_text_def splitLines_def stripCR_def
      trim_def isSpace_def bval_def)

lemma tck_two_points_inf_header:
  "tck_parseHeader tck_two_points_inf =
     Inr \<lparr>tck_datatype = ''Float32LE'', fileOffset = Some 47, tck_count = Some 1,
          tck_metadata = [(''mrtrix tracks'', ''true''), (''datatype'', ''Float32LE''),
                          (''count'', ''1'')]\<rparr>"
  by (simp add: tck_parseHeader_def tck_two_points_inf_end tck_two_points_inf_lines headerStep_def
      trim_def isSpace_def bval_def toLowerCase_def lowerChar_def mdSet_def parseInt_def
      isDigit_def digitsVal_def DATA_TYPES_def Let_def)

lemma tck_two_points_inf_triplets:
  "readTriplet F32 True tck_two_points_inf 47 = Inr (Fin 0, Fin 0, Fin 0)"
  "readTriplet F32 True tck_two_points_inf 59 = Inr (Fin 0, Fin 0, Fin 0)"
  "readTriplet F32 True tck_two_points_inf 71 = Inr (PosInf, Fin 0, Fin 0)"
  by (simp_all add: readTriplet_def getFloat32_def inRange_def tck_two_points_inf_length)
     (simp_all add: tck_two_points_inf_def tck_text_def inf_triplet_def uintAt_def
        float32OfBits_def bval_def)

lemma tck_two_points_inf_loop:
  "tck_loop tck_two_points_inf F32 True 47 [] [] =
     Inr ([Fin 0, Fin 0, Fin 0, Fin 0, Fin 0, Fin 0], [two_origin_points])"
proof -
  have l3: "tck_loop tck_two_points_inf F32 True 71 [Fin 0, Fin 0, Fin 0, Fin 0, Fin 0, Fin 0] [] =
     Inr ([Fin 0, Fin 0, Fin 0, Fin 0, Fin 0, Fin 0], [two_origin_points])"
    by (subst tck_loop.simps)
       (simp add: tck_two_points_inf_length tck_two_points_inf_triplets pushIfLine_def
          two_origin_points_def)
  have l2: "tck_loop tck_two_points_inf F32 True 59 [Fin 0, Fin 0, Fin 0] [] =
     Inr ([Fin 0, Fin 0, Fin 0, Fin 0, Fin 0, Fin 0], [two_origin_points])"
    by (subst tck_loop.simps)
       (simp add: tck_two_points_inf_length tck_two_points_inf_triplets l3)
  show ?thesis
    by (subst tck_loop.simps)
       (simp add: tck_two_points_inf_length tck_two_points_inf_triplets l2)
qed

text \<open>
  C3 (the code departs from it). On a file that holds two points and then a triplet
  starting with Infinity, with no NaN triplet between them, the loop appends the streamline
  and leaves \<open>currentPoints\<close> as it is, and the statement after the loop appends the same
  streamline again: \<open>parseTckFile\<close> returns it twice.
\<close>

theorem tck_infinity_appends_twice:
  "parseTckFile tck_two_points_inf = Inr (tck_result [two_origin_points, two_origin_points])"
  by (simp add: parseTckFile_def tck_two_points_inf_header tck_two_points_inf_length
      MAX_FILE_SIZE_def hasMagic_def tck_parseStreamlines_def DATA_TYPES_def
      tck_two_points_inf_loop pushIfLine_def tck_result_def two_origin_points_def)









lemma tck_no_datatype_end:
  "findEnd tck_no_datatype (min (length tck_no_datatype) 10000) 0 = Some 27"
  by (simp add: tck_no_datatype_def findEnd.simps byteAt_def)

lemma tck_no_datatype_lines:
  "headerLines tck_no_datatype 27 = [''mrtrix tracks'', ''count: 1'', ''END'']"
  by (simp add: headerLines_def tck_no_datatype_def splitLines_def stripCR_def trim_def
      isSpace_def bval_def)

lemma tck_no_datatype_header:
  "tck_parseHeader tck_no_datatype =
     Inr \<lparr>tck_datatype = ''Float32LE'', fileOffset = Some 27, tck_count = Some 1,
          tck_metadata = [(''mrtrix tracks'', ''true''), (''count'', ''1'')]\<rparr>"
  by (simp add: tck_parseHeader_def tck_no_datatype_end tck_no_datatype_lines headerStep_def
      trim_def isSpace_def bval_def toLowerCase_def lowerChar_def mdSet_def parseInt_def
      isDigit_def digitsVal_def DATA_TYPES_def Let_def)

lemma tck_no_datatype_loop:
  "tck_loop tck_no_datatype F32 True 27 [] [] =
     Inr ([Fin 0, Fin 0, Fin 0, Fin 0, Fin 0, Fin 0], [])"
proof -
  have len: "length tck_no_datatype = 51" by (simp add: tck_no_datatype_def)
  have t: "readTriplet F32 True tck_no_datatype 27 = Inr (Fin 0, Fin 0, Fin 0)"
    "readTriplet F32 True tck_no_datatype 39 = Inr (Fin 0, Fin 0, Fin 0)"
    by (simp_all add: readTriplet_def getFloat32_def inRange_def len)
       (simp_all add: tck_no_datatype_def uintAt_def float32OfBits_def)
  have l3: "tck_loop tck_no_datatype F32 True 51 [Fin 0, Fin 0, Fin 0, Fin 0, Fin 0, Fin 0] [] =
     Inr ([Fin 0, Fin 0, Fin 0, Fin 0, Fin 0, Fin 0], [])"
    by (subst tck_loop.simps) (simp add: len)
  have l2: "tck_loop tck_no_datatype F32 True 39 [Fin 0, Fin 0, Fin 0] [] =
     Inr ([Fin 0, Fin 0, Fin 0, Fin 0, Fin 0, Fin 0], [])"
    by (subst tck_loop.simps) (simp add: len t l3)
  show ?thesis
    by (subst tck_loop.simps) (simp add: len t l2)
qed


subsection \<open>The TRX reconstruction\<close>

lemma build_loop_map_filter:
  "d = nb - i \<Longrightarrow> build_loop positions offsets nb i acc =
     acc @ List.map_filter (trx_streamline positions offsets) [i..<nb]"
proof (induction d arbitrary: i acc)
  case 0
  then show ?case by (subst build_loop.simps) simp
next
  case (Suc d)
  then have lt: "i < nb" and d: "d = nb - (i + 1)" by auto
  have up: "[i..<nb] = i # [i + 1..<nb]" using lt by (simp add: upt_conv_Cons)
  show ?case
  proof (cases "jlt (jsub (endOffset positions offsets i) (startOffset offsets i)) (Fin 2)")
    case True
    then have "build_loop positions offsets nb i acc = build_loop positions offsets nb (i + 1) acc"
      using lt by (subst build_loop.simps) (simp add: Let_def)
    then show ?thesis
      using Suc.IH[OF d, of acc] True
      by (simp add: up trx_streamline_def)
  next
    case False
    then have "build_loop positions offsets nb i acc =
        build_loop positions offsets nb (i + 1) (acc @ [the (trx_streamline positions offsets i)])"
      using lt by (subst build_loop.simps) (simp add: Let_def trx_streamline_def)
    then show ?thesis
      using Suc.IH[OF d, of "acc @ [the (trx_streamline positions offsets i)]"] False
      by (simp add: up trx_streamline_def)
  qed
qed


lemma js_slice_vertices:
  assumes "0 \<le> a" "a \<le> b" "3 * b \<le> int (length positions)"
  shows "js_slice positions (jmul (jint a) (Fin 3)) (jmul (jint b) (Fin 3)) =
     take (3 * nat (b - a)) (drop (3 * nat a) positions)"
proof -
  have ta: "trunc (real_of_int a * 3) = 3 * a" "trunc (real_of_int b * 3) = 3 * b"
    using assms by (simp_all add: trunc_def) linarith+
  have "relIndex (length positions) (Fin (real_of_int a * 3)) = 3 * nat a"
    "relIndex (length positions) (Fin (real_of_int b * 3)) = 3 * nat b"
    using assms by (simp_all add: ta min_def) linarith+
  moreover have "3 * nat b - 3 * nat a = 3 * nat (b - a)" using assms by linarith
  ultimately show ?thesis by (simp add: js_slice_def jint_def)
qed

lemma js_slice_last:
  assumes "0 \<le> a" "3 * a \<le> int (length positions)"
  shows "js_slice positions (jmul (jint a) (Fin 3)) (jmul (Fin (real (length positions) / 3)) (Fin 3)) =
     drop (3 * nat a) positions"
proof -
  have ta: "trunc (real_of_int a * 3) = 3 * a" "trunc (real (length positions)) = int (length positions)"
    using assms by (simp_all add: trunc_def) linarith+
  have "relIndex (length positions) (Fin (real_of_int a * 3)) = 3 * nat a"
    "relIndex (length positions) (Fin (real (length positions))) = length positions"
    using assms by (simp_all add: ta min_def) linarith+
  then show ?thesis by (simp add: js_slice_def jint_def)
qed




subsection \<open>The bounding box\<close>

lemma points_loop_extend:
  assumes "3 dvd length ps"
  shows "d = length ps div 3 - i \<Longrightarrow>
     points_loop ps (3 * i) b = extend b (axisFrom 0 ps i) (axisFrom 1 ps i) (axisFrom 2 ps i)"
proof (induction d arbitrary: i b)
  case 0
  then have "\<not> 3 * i < length ps" using assms by auto
  moreover have "axisFrom k ps i = []" for k using 0 by (simp add: axisFrom_def)
  ultimately show ?case by (subst points_loop.simps) (simp add: extend_def)
next
  case (Suc d)
  then have lt: "i < length ps div 3" and d: "d = length ps div 3 - (i + 1)" by auto
  from lt assms have rng: "3 * i + 2 < length ps" by auto
  have up: "axisFrom k ps i = ps ! (3 * i + k) # axisFrom k ps (i + 1)" for k
    using lt by (simp add: axisFrom_def upt_conv_Cons)
  have step: "points_loop ps (3 * i) b = points_loop ps (3 * (i + 1))
      \<lparr>minX = jmin (minX b) (ps ! (3 * i)), minY = jmin (minY b) (ps ! (3 * i + 1)),
       minZ = jmin (minZ b) (ps ! (3 * i + 2)),
       maxX = jmax (maxX b) (ps ! (3 * i)), maxY = jmax (maxY b) (ps ! (3 * i + 1)),
       maxZ = jmax (maxZ b) (ps ! (3 * i + 2))\<rparr>"
    using rng by (subst points_loop.simps) (simp add: coord_def Let_def add.commute)
  show ?case
    unfolding step Suc.IH[OF d] by (simp add: extend_def up)
qed

lemma extend_extend:
  "extend (extend b xs ys zs) xs' ys' zs' = extend b (xs @ xs') (ys @ ys') (zs @ zs')"
  by (simp add: extend_def)

lemma axis_Cons: "axis k (s # sls) = axisFrom k (points s) 0 @ axis k sls"
  by (simp add: axis_def axisFrom_def)

lemma foldl_points_loop:
  "\<forall>s \<in> set sls. 3 dvd length (points s) \<Longrightarrow>
     foldl (\<lambda>b s. points_loop (points s) 0 b) b sls = extend b (axis 0 sls) (axis 1 sls) (axis 2 sls)"
proof (induction sls arbitrary: b)
  case Nil
  then show ?case by (simp add: axis_def extend_def)
next
  case (Cons s sls)
  then have "3 dvd length (points s)" by simp
  from points_loop_extend[OF this refl, of 0 b]
  have "points_loop (points s) 0 b =
      extend b (axisFrom 0 (points s) 0) (axisFrom 1 (points s) 0) (axisFrom 2 (points s) 0)"
    by simp
  then show ?case using Cons by (simp add: extend_extend axis_Cons)
qed

lemma jmin_Fin: "jmin (Fin a) (Fin r) = Fin (min a r)"
  by (simp add: min_def)

lemma jmax_Fin: "jmax (Fin a) (Fin r) = Fin (max a r)"
  by (simp add: max_def)

lemma foldl_jmin_Fin:
  "\<forall>v \<in> set vs. isFinite v \<Longrightarrow> foldl jmin (Fin a) vs = Fin (Min (insert a (set (map fin vs))))"
proof (induction vs arbitrary: a)
  case Nil
  then show ?case by simp
next
  case (Cons v vs)
  then obtain r where v: "v = Fin r" by (cases v) auto
  have "Min (insert (min a r) (fin ` set vs)) = Min (insert a (insert r (fin ` set vs)))"
    by (cases "set vs = {}") (simp_all add: min.assoc)
  then show ?case using Cons v by (simp add: jmin_Fin del: jmin.simps)
qed

lemma foldl_jmax_Fin:
  "\<forall>v \<in> set vs. isFinite v \<Longrightarrow> foldl jmax (Fin a) vs = Fin (Max (insert a (set (map fin vs))))"
proof (induction vs arbitrary: a)
  case Nil
  then show ?case by simp
next
  case (Cons v vs)
  then obtain r where v: "v = Fin r" by (cases v) auto
  have "Max (insert (max a r) (fin ` set vs)) = Max (insert a (insert r (fin ` set vs)))"
    by (cases "set vs = {}") (simp_all add: max.assoc)
  then show ?case using Cons v by (simp add: jmax_Fin del: jmax.simps)
qed

lemma foldl_jmin_PosInf:
  "\<forall>v \<in> set vs. isFinite v \<Longrightarrow> vs \<noteq> [] \<Longrightarrow> foldl jmin PosInf vs = Fin (Min (set (map fin vs)))"
proof (cases vs)
  case Nil
  assume "vs \<noteq> []" with Nil show ?thesis by simp
next
  case (Cons v vs')
  assume a: "\<forall>v \<in> set vs. isFinite v"
  then obtain r where v: "v = Fin r" using Cons by (cases v) auto
  show ?thesis using a foldl_jmin_Fin[of vs' r] by (simp add: Cons v)
qed

lemma foldl_jmax_NegInf:
  "\<forall>v \<in> set vs. isFinite v \<Longrightarrow> vs \<noteq> [] \<Longrightarrow> foldl jmax NegInf vs = Fin (Max (set (map fin vs)))"
proof (cases vs)
  case Nil
  assume "vs \<noteq> []" with Nil show ?thesis by simp
next
  case (Cons v vs')
  assume a: "\<forall>v \<in> set vs. isFinite v"
  then obtain r where v: "v = Fin r" using Cons by (cases v) auto
  show ?thesis using a foldl_jmax_Fin[of vs' r] by (simp add: Cons v)
qed

lemma axis_finite:
  assumes "wellFormed sls"
  shows "\<forall>v \<in> set (axis k sls). isFinite v \<or> \<not> k < 3"
proof
  fix v assume "v \<in> set (axis k sls)"
  then obtain s i where s: "s \<in> set sls" "i < length (points s) div 3" "v = points s ! (3 * i + k)"
    by (auto simp: axis_def)
  show "isFinite v \<or> \<not> k < 3"
  proof (cases "k < 3")
    case True
    then have "3 * i + k < length (points s)" using s(2) by auto
    then have "v \<in> set (points s)" using s(3) by simp
    then show ?thesis using assms s(1) by (auto simp: wellFormed_def)
  next
    case False
    then show ?thesis by simp
  qed
qed

lemma axis_length: "length (axis k sls) = length (axis 0 sls)"
  by (simp add: axis_def length_concat comp_def)

lemma bb_two_corners: "calculateBoundingBox two_corners =
     \<lparr>bb_min = (Fin 0, Fin 0, Fin 0), bb_max = (Fin 2, Fin 4, Fin 6),
      bb_center = (Fin 1, Fin 2, Fin 3), bb_size = Fin (sqrt (4 + 16 + 36))\<rparr>"
  by (simp add: calculateBoundingBox_def two_corners_def points_loop.simps coord_def half_def
      square_def jsub_def Let_def)


lemma wellFormed_dvd: "wellFormed sls \<Longrightarrow> \<forall>s \<in> set sls. 3 dvd length (points s)"
  by (simp add: wellFormed_def)

lemma bounds_of_wellFormed:
  assumes wf: "wellFormed sls" and ne: "axis 0 sls \<noteq> []" and k: "k < 3"
  shows "foldl jmin PosInf (axis k sls) = Fin (lo k sls)"
    and "foldl jmax NegInf (axis k sls) = Fin (hi k sls)"
proof -
  have fin: "\<forall>v \<in> set (axis k sls). isFinite v" using axis_finite[OF wf, of k] k by auto
  have "length (axis k sls) \<noteq> 0" using ne axis_length[of k sls] by simp
  then have nek: "axis k sls \<noteq> []" by simp
  show "foldl jmin PosInf (axis k sls) = Fin (lo k sls)"
    using foldl_jmin_PosInf[OF fin nek] by (simp add: lo_def)
  show "foldl jmax NegInf (axis k sls) = Fin (hi k sls)"
    using foldl_jmax_NegInf[OF fin nek] by (simp add: hi_def)
qed

lemma sum_squares_nonneg: "\<not> (a * a + b * b + c * c < (0::real))"
proof -
  have "0 \<le> a * a" "0 \<le> b * b" "0 \<le> c * c" by simp_all
  then show ?thesis by linarith
qed

lemma jle_refl: "\<not> isNaN a \<Longrightarrow> jle a a"
  by (cases a) auto

lemma jle_trans: "jle a b \<Longrightarrow> jle b c \<Longrightarrow> jle a c"
  by (cases a; cases b; cases c) auto

lemma jmin_least:
  "\<not> isNaN a \<Longrightarrow> \<not> isNaN b \<Longrightarrow>
     (jmin a b = a \<or> jmin a b = b) \<and> jle (jmin a b) a \<and> jle (jmin a b) b \<and> \<not> isNaN (jmin a b)"
  by (cases a; cases b) auto

lemma jmax_greatest:
  "\<not> isNaN a \<Longrightarrow> \<not> isNaN b \<Longrightarrow>
     (jmax a b = a \<or> jmax a b = b) \<and> jle a (jmax a b) \<and> jle b (jmax a b) \<and> \<not> isNaN (jmax a b)"
  by (cases a; cases b) auto

lemma foldl_jmin_least:
  "\<forall>v \<in> set vs. \<not> isNaN v \<Longrightarrow> \<not> isNaN a \<Longrightarrow>
     (foldl jmin a vs = a \<or> foldl jmin a vs \<in> set vs) \<and> jle (foldl jmin a vs) a \<and>
     (\<forall>v \<in> set vs. jle (foldl jmin a vs) v)"
proof (induction vs arbitrary: a)
  case Nil
  then show ?case by (simp add: jle_refl)
next
  case (Cons v vs)
  then have v: "\<not> isNaN v" by simp
  note m = jmin_least[OF Cons.prems(2) v]
  from m have nn: "\<not> isNaN (jmin a v)" by simp
  from Cons.prems(1) have rest: "\<forall>v \<in> set vs. \<not> isNaN v" by simp
  note ih = Cons.IH[OF rest nn]
  let ?r = "foldl jmin (jmin a v) vs"
  from ih have r: "jle ?r (jmin a v)" by simp
  have "jle ?r a" using r m jle_trans by blast
  moreover have "jle ?r v" using r m jle_trans by blast
  moreover have "?r = a \<or> ?r \<in> set (v # vs)" using ih m by auto
  ultimately show ?case using ih by simp
qed

lemma foldl_jmax_greatest:
  "\<forall>v \<in> set vs. \<not> isNaN v \<Longrightarrow> \<not> isNaN a \<Longrightarrow>
     (foldl jmax a vs = a \<or> foldl jmax a vs \<in> set vs) \<and> jle a (foldl jmax a vs) \<and>
     (\<forall>v \<in> set vs. jle v (foldl jmax a vs))"
proof (induction vs arbitrary: a)
  case Nil
  then show ?case by (simp add: jle_refl)
next
  case (Cons v vs)
  then have v: "\<not> isNaN v" by simp
  note m = jmax_greatest[OF Cons.prems(2) v]
  from m have nn: "\<not> isNaN (jmax a v)" by simp
  from Cons.prems(1) have rest: "\<forall>v \<in> set vs. \<not> isNaN v" by simp
  note ih = Cons.IH[OF rest nn]
  let ?r = "foldl jmax (jmax a v) vs"
  from ih have r: "jle (jmax a v) ?r" by simp
  have "jle a ?r" using r m jle_trans by blast
  moreover have "jle v ?r" using r m jle_trans by blast
  moreover have "?r = a \<or> ?r \<in> set (v # vs)" using ih m by auto
  ultimately show ?case using ih by simp
qed

lemma foldl_jmin_isLeast:
  assumes "\<forall>v \<in> set vs. \<not> isNaN v" "vs \<noteq> []"
  shows "isLeast (foldl jmin PosInf vs) vs"
proof -
  let ?r = "foldl jmin PosInf vs"
  from foldl_jmin_least[OF assms(1), of PosInf]
  have r: "?r = PosInf \<or> ?r \<in> set vs" "\<forall>v \<in> set vs. jle ?r v" by simp_all
  have "?r \<in> set vs"
  proof (cases "?r = PosInf")
    case True
    from assms(2) obtain v where v: "v \<in> set vs" by (cases vs) auto
    with r(2) True have "jle PosInf v" by simp
    then have "v = PosInf" by (cases v) auto
    with v True show ?thesis by simp
  next
    case False
    with r(1) show ?thesis by simp
  qed
  with r(2) show ?thesis by (simp add: isLeast_def)
qed

lemma foldl_jmax_isGreatest:
  assumes "\<forall>v \<in> set vs. \<not> isNaN v" "vs \<noteq> []"
  shows "isGreatest (foldl jmax NegInf vs) vs"
proof -
  let ?r = "foldl jmax NegInf vs"
  from foldl_jmax_greatest[OF assms(1), of NegInf]
  have r: "?r = NegInf \<or> ?r \<in> set vs" "\<forall>v \<in> set vs. jle v ?r" by simp_all
  have "?r \<in> set vs"
  proof (cases "?r = NegInf")
    case True
    from assms(2) obtain v where v: "v \<in> set vs" by (cases vs) auto
    with r(2) True have "jle v NegInf" by simp
    then have "v = NegInf" by (cases v) auto
    with v True show ?thesis by simp
  next
    case False
    with r(1) show ?thesis by simp
  qed
  with r(2) show ?thesis by (simp add: isGreatest_def)
qed

lemma axis_not_NaN:
  assumes "wholePoints sls" "k < 3"
  shows "\<forall>v \<in> set (axis k sls). \<not> isNaN v"
proof
  fix v assume "v \<in> set (axis k sls)"
  then obtain s i where s: "s \<in> set sls" "i < length (points s) div 3" "v = points s ! (3 * i + k)"
    by (auto simp: axis_def)
  have "3 * i + k < length (points s)" using s(2) assms(2) by auto
  then have "v \<in> set (points s)" using s(3) by simp
  then show "\<not> isNaN v" using assms(1) s(1) by (auto simp: wholePoints_def)
qed

lemma wellFormed_wholePoints:
  "wellFormed sls = (wholePoints sls \<and> (\<forall>s \<in> set sls. \<forall>v \<in> set (points s). isFinite v))"
proof -
  have "isFinite v \<Longrightarrow> \<not> isNaN v" for v by (cases v) auto
  then show ?thesis by (auto simp: wellFormed_def wholePoints_def)
qed

text \<open>
  C9 (as stated, it fails). A NaN coordinate makes \<open>Math.min\<close> and \<open>Math.max\<close> return NaN
  from then on: with the x coordinates 1, NaN and 5 the minimum and the maximum of the x
  axis are NaN, and so are the center's x and the size. A points array of four floats is
  read as two points, the second with \<open>undefined\<close> for y and z: the y and z bounds are NaN
  although the only whole point has y = z = 0.
\<close>

theorem calculateBoundingBox_not_a_number:
  "axis 0 nan_coordinate = [Fin 1, NaN, Fin 5] \<and>
   calculateBoundingBox nan_coordinate =
     \<lparr>bb_min = (NaN, Fin 0, Fin 0), bb_max = (NaN, Fin 0, Fin 0),
      bb_center = (NaN, Fin 0, Fin 0), bb_size = NaN\<rparr> \<and>
   axis 1 ragged_points = [Fin 0] \<and>
   calculateBoundingBox ragged_points =
     \<lparr>bb_min = (Fin 0, NaN, NaN), bb_max = (Fin 5, NaN, NaN),
      bb_center = (Fin (5 / 2), NaN, NaN), bb_size = NaN\<rparr>"
proof -
  have up: "[0..<3] = [0, Suc 0, Suc (Suc 0)]" by (simp add: upt_conv_Cons)
  have a: "axis 0 nan_coordinate = [Fin 1, NaN, Fin 5]"
    by (simp add: axis_def nan_coordinate_def up)
  have b: "calculateBoundingBox nan_coordinate =
     \<lparr>bb_min = (NaN, Fin 0, Fin 0), bb_max = (NaN, Fin 0, Fin 0),
      bb_center = (NaN, Fin 0, Fin 0), bb_size = NaN\<rparr>"
    by (simp add: calculateBoundingBox_def nan_coordinate_def points_loop.simps coord_def half_def
        square_def jsub_def Let_def)
  have c: "axis 1 ragged_points = [Fin 0]"
    by (simp add: axis_def ragged_points_def)
  have d: "calculateBoundingBox ragged_points =
     \<lparr>bb_min = (Fin 0, NaN, NaN), bb_max = (Fin 5, NaN, NaN),
      bb_center = (Fin (5 / 2), NaN, NaN), bb_size = NaN\<rparr>"
    by (simp add: calculateBoundingBox_def ragged_points_def points_loop.simps coord_def half_def
        square_def jsub_def Let_def)
  from a b c d show ?thesis by simp
qed

text \<open>
  C9 (amended). For every list of streamlines whose points arrays hold whole points and
  no NaN coordinate: without any point the minimum is \<open>(+\<infinity>, +\<infinity>, +\<infinity>)\<close> and the maximum
  \<open>(-\<infinity>, -\<infinity>, -\<infinity>)\<close> (the center is then NaN and the size Infinity); with points, the
  minimum and the maximum hold the least and the greatest coordinate of each axis over all
  points, the center is the midpoint of each axis and the size is the Euclidean length of
  maximum minus minimum, in the arithmetic of numbers; when all coordinates are finite
  these are the real minimum, maximum, midpoint and length. The points (0,0,0) and (2,4,6)
  give (0,0,0), (2,4,6), the center (1,2,3) and the size \<open>sqrt (4 + 16 + 36)\<close>.
\<close>

theorem calculateBoundingBox_extent:
  assumes "wholePoints sls"
  shows
    "(axis 0 sls = [] \<longrightarrow>
        calculateBoundingBox sls =
          \<lparr>bb_min = (PosInf, PosInf, PosInf), bb_max = (NegInf, NegInf, NegInf),
           bb_center = (NaN, NaN, NaN), bb_size = PosInf\<rparr>) \<and>
     (axis 0 sls \<noteq> [] \<longrightarrow>
        (\<exists>lx ly lz hx hy hz.
           isLeast lx (axis 0 sls) \<and> isLeast ly (axis 1 sls) \<and> isLeast lz (axis 2 sls) \<and>
           isGreatest hx (axis 0 sls) \<and> isGreatest hy (axis 1 sls) \<and> isGreatest hz (axis 2 sls) \<and>
           calculateBoundingBox sls =
             \<lparr>bb_min = (lx, ly, lz), bb_max = (hx, hy, hz),
              bb_center = (half (jadd lx hx), half (jadd ly hy), half (jadd lz hz)),
              bb_size = jsqrt (jadd (jadd (square (jsub hx lx)) (square (jsub hy ly)))
                                (square (jsub hz lz)))\<rparr>)) \<and>
     (axis 0 sls \<noteq> [] \<and> (\<forall>s \<in> set sls. \<forall>v \<in> set (points s). isFinite v) \<longrightarrow>
        calculateBoundingBox sls =
          \<lparr>bb_min = (Fin (lo 0 sls), Fin (lo 1 sls), Fin (lo 2 sls)),
           bb_max = (Fin (hi 0 sls), Fin (hi 1 sls), Fin (hi 2 sls)),
           bb_center = (Fin ((lo 0 sls + hi 0 sls) / 2), Fin ((lo 1 sls + hi 1 sls) / 2),
                     Fin ((lo 2 sls + hi 2 sls) / 2)),
           bb_size = Fin (sqrt ((hi 0 sls - lo 0 sls)\<^sup>2 + (hi 1 sls - lo 1 sls)\<^sup>2 +
                             (hi 2 sls - lo 2 sls)\<^sup>2))\<rparr>) \<and>
     calculateBoundingBox two_corners =
       \<lparr>bb_min = (Fin 0, Fin 0, Fin 0), bb_max = (Fin 2, Fin 4, Fin 6),
        bb_center = (Fin 1, Fin 2, Fin 3), bb_size = Fin (sqrt (4 + 16 + 36))\<rparr>"
proof (intro conjI impI)
  let ?init = "\<lparr>minX = PosInf, minY = PosInf, minZ = PosInf,
                 maxX = NegInf, maxY = NegInf, maxZ = NegInf\<rparr>"
  have dvd: "\<forall>s \<in> set sls. 3 dvd length (points s)" using assms by (simp add: wholePoints_def)
  have loop: "foldl (\<lambda>b s. points_loop (points s) 0 b) ?init sls =
      extend ?init (axis 0 sls) (axis 1 sls) (axis 2 sls)"
    using dvd by (rule foldl_points_loop)
  {
    assume e: "axis 0 sls = []"
    have "length (axis k sls) = 0" for k using e axis_length[of k sls] by simp
    then have "axis 1 sls = []" "axis 2 sls = []" by simp_all
    then show "calculateBoundingBox sls =
          \<lparr>bb_min = (PosInf, PosInf, PosInf), bb_max = (NegInf, NegInf, NegInf),
           bb_center = (NaN, NaN, NaN), bb_size = PosInf\<rparr>"
      using e by (simp add: calculateBoundingBox_def loop extend_def half_def square_def jsub_def
          jinf_def)
  }
  {
    assume ne: "axis 0 sls \<noteq> []"
    have nek: "axis k sls \<noteq> []" for k
    proof -
      have "length (axis k sls) \<noteq> 0" using ne axis_length[of k sls] by simp
      then show ?thesis by simp
    qed
    have l: "isLeast (foldl jmin PosInf (axis k sls)) (axis k sls)" if "k < 3" for k
      using axis_not_NaN[OF assms that] nek by (rule foldl_jmin_isLeast)
    have g: "isGreatest (foldl jmax NegInf (axis k sls)) (axis k sls)" if "k < 3" for k
      using axis_not_NaN[OF assms that] nek by (rule foldl_jmax_isGreatest)
    have c: "calculateBoundingBox sls =
       \<lparr>bb_min = (foldl jmin PosInf (axis 0 sls), foldl jmin PosInf (axis 1 sls),
                 foldl jmin PosInf (axis 2 sls)),
        bb_max = (foldl jmax NegInf (axis 0 sls), foldl jmax NegInf (axis 1 sls),
                 foldl jmax NegInf (axis 2 sls)),
        bb_center = (half (jadd (foldl jmin PosInf (axis 0 sls)) (foldl jmax NegInf (axis 0 sls))),
                    half (jadd (foldl jmin PosInf (axis 1 sls)) (foldl jmax NegInf (axis 1 sls))),
                    half (jadd (foldl jmin PosInf (axis 2 sls)) (foldl jmax NegInf (axis 2 sls)))),
        bb_size = jsqrt (jadd (jadd
            (square (jsub (foldl jmax NegInf (axis 0 sls)) (foldl jmin PosInf (axis 0 sls))))
            (square (jsub (foldl jmax NegInf (axis 1 sls)) (foldl jmin PosInf (axis 1 sls)))))
            (square (jsub (foldl jmax NegInf (axis 2 sls)) (foldl jmin PosInf (axis 2 sls)))))\<rparr>"
      by (simp add: calculateBoundingBox_def loop extend_def)
    show "\<exists>lx ly lz hx hy hz.
           isLeast lx (axis 0 sls) \<and> isLeast ly (axis 1 sls) \<and> isLeast lz (axis 2 sls) \<and>
           isGreatest hx (axis 0 sls) \<and> isGreatest hy (axis 1 sls) \<and> isGreatest hz (axis 2 sls) \<and>
           calculateBoundingBox sls =
             \<lparr>bb_min = (lx, ly, lz), bb_max = (hx, hy, hz),
              bb_center = (half (jadd lx hx), half (jadd ly hy), half (jadd lz hz)),
              bb_size = jsqrt (jadd (jadd (square (jsub hx lx)) (square (jsub hy ly)))
                                (square (jsub hz lz)))\<rparr>"
    proof (intro exI conjI)
      show "isLeast (foldl jmin PosInf (axis 0 sls)) (axis 0 sls)" by (rule l) simp
      show "isLeast (foldl jmin PosInf (axis 1 sls)) (axis 1 sls)" by (rule l) simp
      show "isLeast (foldl jmin PosInf (axis 2 sls)) (axis 2 sls)" by (rule l) simp
      show "isGreatest (foldl jmax NegInf (axis 0 sls)) (axis 0 sls)" by (rule g) simp
      show "isGreatest (foldl jmax NegInf (axis 1 sls)) (axis 1 sls)" by (rule g) simp
      show "isGreatest (foldl jmax NegInf (axis 2 sls)) (axis 2 sls)" by (rule g) simp
      show "calculateBoundingBox sls =
       \<lparr>bb_min = (foldl jmin PosInf (axis 0 sls), foldl jmin PosInf (axis 1 sls),
                 foldl jmin PosInf (axis 2 sls)),
        bb_max = (foldl jmax NegInf (axis 0 sls), foldl jmax NegInf (axis 1 sls),
                 foldl jmax NegInf (axis 2 sls)),
        bb_center = (half (jadd (foldl jmin PosInf (axis 0 sls)) (foldl jmax NegInf (axis 0 sls))),
                    half (jadd (foldl jmin PosInf (axis 1 sls)) (foldl jmax NegInf (axis 1 sls))),
                    half (jadd (foldl jmin PosInf (axis 2 sls)) (foldl jmax NegInf (axis 2 sls)))),
        bb_size = jsqrt (jadd (jadd
            (square (jsub (foldl jmax NegInf (axis 0 sls)) (foldl jmin PosInf (axis 0 sls))))
            (square (jsub (foldl jmax NegInf (axis 1 sls)) (foldl jmin PosInf (axis 1 sls)))))
            (square (jsub (foldl jmax NegInf (axis 2 sls)) (foldl jmin PosInf (axis 2 sls)))))\<rparr>"
        by (rule c)
    qed
  }
  {
    assume a: "axis 0 sls \<noteq> [] \<and> (\<forall>s \<in> set sls. \<forall>v \<in> set (points s). isFinite v)"
    then have wf: "wellFormed sls" using assms by (simp add: wellFormed_wholePoints)
    from a have ne: "axis 0 sls \<noteq> []" by simp
    note b = bounds_of_wellFormed[OF wf ne]
    show "calculateBoundingBox sls =
          \<lparr>bb_min = (Fin (lo 0 sls), Fin (lo 1 sls), Fin (lo 2 sls)),
           bb_max = (Fin (hi 0 sls), Fin (hi 1 sls), Fin (hi 2 sls)),
           bb_center = (Fin ((lo 0 sls + hi 0 sls) / 2), Fin ((lo 1 sls + hi 1 sls) / 2),
                     Fin ((lo 2 sls + hi 2 sls) / 2)),
           bb_size = Fin (sqrt ((hi 0 sls - lo 0 sls)\<^sup>2 + (hi 1 sls - lo 1 sls)\<^sup>2 +
                             (hi 2 sls - lo 2 sls)\<^sup>2))\<rparr>"
      by (simp add: calculateBoundingBox_def loop extend_def b half_def square_def jsub_def
          sum_squares_nonneg power2_eq_square)
  }
  show "calculateBoundingBox two_corners =
       \<lparr>bb_min = (Fin 0, Fin 0, Fin 0), bb_max = (Fin 2, Fin 4, Fin 6),
        bb_center = (Fin 1, Fin 2, Fin 3), bb_size = Fin (sqrt (4 + 16 + 36))\<rparr>"
    by (rule bb_two_corners)
qed

theorem calculateBoundingBox_extent_witness:
  "calculateBoundingBox [] =
     \<lparr>bb_min = (PosInf, PosInf, PosInf), bb_max = (NegInf, NegInf, NegInf),
      bb_center = (NaN, NaN, NaN), bb_size = PosInf\<rparr> \<and>
   calculateBoundingBox infinite_coordinates =
     \<lparr>bb_min = (Fin 1, Fin 0, NegInf), bb_max = (PosInf, Fin 2, Fin 3),
      bb_center = (PosInf, Fin 1, NegInf), bb_size = PosInf\<rparr> \<and>
   bb_min (calculateBoundingBox two_corners) =
     (Fin (lo 0 two_corners), Fin (lo 1 two_corners), Fin (lo 2 two_corners)) \<and>
   bb_max (calculateBoundingBox two_corners) =
     (Fin (hi 0 two_corners), Fin (hi 1 two_corners), Fin (hi 2 two_corners)) \<and>
   lo 1 two_corners = 0 \<and> hi 1 two_corners = 4"
proof -
  have "(3::nat) dvd Suc (Suc (Suc (Suc (Suc (Suc 0)))))" by presburger
  then have wf: "wholePoints two_corners" "wholePoints []" "wholePoints infinite_coordinates"
    by (simp_all add: wholePoints_def two_corners_def infinite_coordinates_def)
  have up: "[0..<2] = [0, Suc 0]" by (simp add: upt_conv_Cons)
  have ax: "axis 0 two_corners = [Fin 0, Fin 2]" "axis 1 two_corners = [Fin 0, Fin 4]"
    by (simp_all add: axis_def two_corners_def up)
  have ai: "axis 0 infinite_coordinates = [PosInf, Fin 1]"
    "axis 1 infinite_coordinates = [Fin 0, Fin 2]" "axis 2 infinite_coordinates = [NegInf, Fin 3]"
    by (simp_all add: axis_def infinite_coordinates_def up)
  have e: "calculateBoundingBox [] =
     \<lparr>bb_min = (PosInf, PosInf, PosInf), bb_max = (NegInf, NegInf, NegInf),
      bb_center = (NaN, NaN, NaN), bb_size = PosInf\<rparr>"
    using calculateBoundingBox_extent[OF wf(2)] by (simp add: axis_def)
  have i: "calculateBoundingBox infinite_coordinates =
     \<lparr>bb_min = (Fin 1, Fin 0, NegInf), bb_max = (PosInf, Fin 2, Fin 3),
      bb_center = (PosInf, Fin 1, NegInf), bb_size = PosInf\<rparr>"
    using ai calculateBoundingBox_extent[OF wf(3)]
    by (auto simp: isLeast_def isGreatest_def half_def square_def jsub_def jinf_def)
  have t: "bb_min (calculateBoundingBox two_corners) =
     (Fin (lo 0 two_corners), Fin (lo 1 two_corners), Fin (lo 2 two_corners)) \<and>
   bb_max (calculateBoundingBox two_corners) =
     (Fin (hi 0 two_corners), Fin (hi 1 two_corners), Fin (hi 2 two_corners)) \<and>
   lo 1 two_corners = 0 \<and> hi 1 two_corners = 4"
    using calculateBoundingBox_extent[OF wf(1)]
    by (simp add: ax lo_def hi_def) (simp add: axis_def two_corners_def up)
  from e i t show ?thesis by simp
qed

subsection \<open>The three parsers together\<close>

lemma trx_header_text_length: "length trx_header_text = 116"
  by (simp add: trx_header_text_def quoted_def)

lemma trx_archive_length: "length trx_archive = 306"
  by (simp add: trx_archive_def zip_entry_def trx_header_text_length)

lemma trx_archive_tail:
  "drop 157 trx_archive =
     zip_entry (CHR 0x30) (CHR 0x13) ''positions.3.float32'' (replicate 48 (CHR 0x00)) @
     zip_entry (CHR 0x08) (CHR 0x0E) ''offsets.uint32'' [CHR 0x00, CHR 0x00, CHR 0x00, CHR 0x00, CHR 0x02, CHR 0x00, CHR 0x00, CHR 0x00]"
proof -
  have "length (zip_entry (CHR 0x74) (CHR 0x0B) ''header.json'' trx_header_text) = 157"
    by (simp add: zip_entry_def trx_header_text_length)
  then show ?thesis by (simp add: trx_archive_def)
qed

lemma trx_archive_drop: "drop (157 + k) trx_archive = drop k (drop 157 trx_archive)"
  by (simp add: add.commute)

lemma zip_end: "zip_loop f trx_archive 306 acc = Inr acc"
  by (subst zip_loop.simps) (simp add: trx_archive_length)

lemma zip_third: "zip_loop f trx_archive 254 acc = Inr (acc @ [\<lparr>name = ''offsets.uint32'', data = [CHR 0x00, CHR 0x00, CHR 0x00, CHR 0x00, CHR 0x02, CHR 0x00, CHR 0x00, CHR 0x00]\<rparr>])"
proof -
  have d: "drop 254 trx_archive = zip_entry (CHR 0x08) (CHR 0x0E) ''offsets.uint32'' [CHR 0x00, CHR 0x00, CHR 0x00, CHR 0x00, CHR 0x02, CHR 0x00, CHR 0x00, CHR 0x00]"
    using trx_archive_drop[of 97] by (simp add: trx_archive_tail) (simp add: zip_entry_def)
  have dk: "drop (254 + k) trx_archive = drop k (drop 254 trx_archive)" for k
    by (simp add: add.commute)
  have g: "getUint32 trx_archive 254 True = Inr 0x04034b50"
    "getUint16 trx_archive 262 True = Inr 0"
    "getUint32 trx_archive 272 True = Inr 8"
    "getUint32 trx_archive 276 True = Inr 8"
    "getUint16 trx_archive 280 True = Inr 14"
    "getUint16 trx_archive 282 True = Inr 0"
    using dk[of 0] dk[of 8] dk[of 18] dk[of 22] dk[of 26] dk[of 28]
    by (simp_all add: getUint32_def getUint16_def inRange_def trx_archive_length uintAt_def d)
       (simp_all add: zip_entry_def bval_def)
  have s: "decodeName (sliceNat trx_archive 284 298) = ''offsets.uint32''"
    "sliceNat trx_archive 298 306 = [CHR 0x00, CHR 0x00, CHR 0x00, CHR 0x00, CHR 0x02, CHR 0x00, CHR 0x00, CHR 0x00]"
    using dk[of 30] dk[of 44]
    by (simp_all add: sliceNat_def decodeName_def d) (simp_all add: zip_entry_def)
  show ?thesis
    by (subst zip_loop.simps) (simp add: trx_archive_length g s zip_end)
qed

lemma zip_second: "zip_loop f trx_archive 157 acc = Inr (acc @ [\<lparr>name = ''positions.3.float32'', data = replicate 48 (CHR 0x00)\<rparr>, \<lparr>name = ''offsets.uint32'', data = [CHR 0x00, CHR 0x00, CHR 0x00, CHR 0x00, CHR 0x02, CHR 0x00, CHR 0x00, CHR 0x00]\<rparr>])"
proof -
  have dk: "drop (157 + k) trx_archive = drop k (drop 157 trx_archive)" for k
    by (simp add: add.commute)
  have g: "getUint32 trx_archive 157 True = Inr 0x04034b50"
    "getUint16 trx_archive 165 True = Inr 0"
    "getUint32 trx_archive 175 True = Inr 48"
    "getUint32 trx_archive 179 True = Inr 48"
    "getUint16 trx_archive 183 True = Inr 19"
    "getUint16 trx_archive 185 True = Inr 0"
    using dk[of 0] dk[of 8] dk[of 18] dk[of 22] dk[of 26] dk[of 28]
    by (simp_all add: getUint32_def getUint16_def inRange_def trx_archive_length uintAt_def
        trx_archive_tail)
       (simp_all add: zip_entry_def bval_def)
  have s: "decodeName (sliceNat trx_archive 187 206) = ''positions.3.float32''"
    "sliceNat trx_archive 206 254 = replicate 48 (CHR 0x00)"
    using dk[of 30] dk[of 49]
    by (simp_all add: sliceNat_def decodeName_def trx_archive_tail) (simp_all add: zip_entry_def)
  show ?thesis
    by (subst zip_loop.simps) (simp add: trx_archive_length g s zip_third)
qed

lemma zip_entries: "parseZipEntries f trx_archive = Inr [\<lparr>name = ''header.json'', data = trx_header_text\<rparr>, \<lparr>name = ''positions.3.float32'', data = replicate 48 (CHR 0x00)\<rparr>, \<lparr>name = ''offsets.uint32'', data = [CHR 0x00, CHR 0x00, CHR 0x00, CHR 0x00, CHR 0x02, CHR 0x00, CHR 0x00, CHR 0x00]\<rparr>]"
proof -
  have g: "getUint32 trx_archive 0 True = Inr 0x04034b50"
    "getUint16 trx_archive 8 True = Inr 0"
    "getUint32 trx_archive 18 True = Inr 116"
    "getUint32 trx_archive 22 True = Inr 116"
    "getUint16 trx_archive 26 True = Inr 11"
    "getUint16 trx_archive 28 True = Inr 0"
    by (simp_all add: getUint32_def getUint16_def inRange_def trx_archive_length)
       (simp_all add: trx_archive_def zip_entry_def uintAt_def bval_def)
  have s: "decodeName (sliceNat trx_archive 30 41) = ''header.json''"
    "sliceNat trx_archive 41 157 = trx_header_text"
    by (simp_all add: trx_archive_def zip_entry_def sliceNat_def decodeName_def
        trx_header_text_length)
  show ?thesis
    unfolding parseZipEntries_def
    by (subst zip_loop.simps) (simp add: trx_archive_length g s zip_second)
qed

lemma trx_json_valid: "validateTrxHeader trx_json = Inr \<lparr>VOXEL_TO_RASMM = [[Fin 1, Fin 0, Fin 0, Fin 0], [Fin 0, Fin 1, Fin 0, Fin 0], [Fin 0, Fin 0, Fin 1, Fin 0], [Fin 0, Fin 0, Fin 0, Fin 1]], DIMENSIONS = (1, 1, 1), NB_STREAMLINES = 2, NB_VERTICES = 4\<rparr>"
  by (simp add: validateTrxHeader_def trx_json_def identity4_def)

lemma traverse_map:
  "\<forall>x \<in> set xs. f x = Inr (g x) \<Longrightarrow> traverse f xs = Inr (map g xs)"
  by (induction xs) simp_all

lemma positions_decoded: "parsePositions ''positions.3.float32'' (replicate 48 (CHR 0x00)) = Inr (replicate 12 (Fin 0))"
proof -
  have "\<forall>i \<in> set [0..<12]. getFloat32 (replicate 48 (CHR 0x00)) (int (i * 4)) True = Inr (Fin 0)"
    by (simp add: getFloat32_def inRange_def uintAt_def float32OfBits_def)
  from traverse_map[OF this]
  have "decodeArray 4 getFloat32 (replicate 48 (CHR 0x00)) = Inr (replicate 12 (Fin 0))"
    by (simp add: decodeArray_def map_replicate_const)
  moreover have "asciiLower (lastPart (CHR ''.'') (basename ''positions.3.float32'')) = ''float32''"
    by (simp add: asciiLower_def lastPart_def basename_def bval_def)
  ultimately show ?thesis by (simp add: parsePositions_def)
qed

lemma offsets_decoded: "parseOffsets ''offsets.uint32'' [CHR 0x00, CHR 0x00, CHR 0x00, CHR 0x00, CHR 0x02, CHR 0x00, CHR 0x00, CHR 0x00] = Inr [0, 2]"
proof -
  have up: "[0..<2] = [0, Suc 0]" by (simp add: upt_conv_Cons)
  have "asciiLower (lastPart (CHR ''.'') (basename ''offsets.uint32'')) = ''uint32''"
    by (simp add: asciiLower_def lastPart_def basename_def bval_def)
  then show ?thesis
    by (simp add: parseOffsets_def decodeArray_def up getUint32i_def getUint32_def inRange_def
        uintAt_def bval_def)
qed

lemma two_built: "buildStreamlines (replicate 12 (Fin 0)) [0, 2] 2 = [two_origin_vertices, two_origin_vertices]"
proof -
  have up: "[0..<2] = [0, Suc 0]" by (simp add: upt_conv_Cons)
  show ?thesis
    using build_loop_map_filter[OF refl, of "replicate 12 (Fin 0)" "[0, 2]" 2 0 "[]"]
    by (simp add: buildStreamlines_def up)
       (simp add: trx_streamline_def startOffset_def endOffset_def jsub_def jnat_def jint_def
          js_slice_def trunc_def two_origin_vertices_def)
qed

lemma identity_voxel: "extractVoxelSize [[Fin 1, Fin 0, Fin 0, Fin 0], [Fin 0, Fin 1, Fin 0, Fin 0], [Fin 0, Fin 0, Fin 1, Fin 0], [Fin 0, Fin 0, Fin 0, Fin 1]] = Some (Fin 1, Fin 1, Fin 1)"
  by (simp add: extractVoxelSize_def columnNorm_def cell_def)

lemma parse_trx_archive: "parseTrxFile no_inflate parse_header_text trx_archive = Inr trx_result"
  by (simp add: parseTrxFile_def trx_archive_length MAX_FILE_SIZE_def zip_entries isHeaderEntry_def isPositionsEntry_def
      isOffsetsEntry_def startsWith_def endsWith_def parse_header_text_def trx_json_valid positions_decoded offsets_decoded two_built identity_voxel trx_result_def)

lemma parseTrxFile_result:
  assumes "parseTrxFile inflate jp buf = Inr r"
  shows "nCount (header r) = length (streamlines r)"
  using assms
  by (auto simp: parseTrxFile_def Let_def split: if_splits sum.splits option.splits)

lemma parseTrxFile_pipeline:
  assumes "parseTrxFile inflate jp buf = Inr r"
  shows "\<exists>entries he obj th pe oe positions offsets.
     parseZipEntries inflate buf = Inr entries \<and>
     find isHeaderEntry entries = Some he \<and> jp (data he) = Some obj \<and>
     validateTrxHeader obj = Inr th \<and>
     find isPositionsEntry entries = Some pe \<and> find isOffsetsEntry entries = Some oe \<and>
     parsePositions (name pe) (data pe) = Inr positions \<and>
     parseOffsets (name oe) (data oe) = Inr offsets \<and>
     streamlines r = buildStreamlines positions offsets (NB_STREAMLINES th)"
  using assms
  by (auto simp: parseTrxFile_def Let_def split: if_splits sum.splits option.splits)

lemma trx_streamline_in_range:
  assumes "i + 1 \<le> length offsets" "trx_streamline positions offsets i = Some s"
  shows "\<exists>x. 2 \<le> x \<and> numPoints s = Fin x \<and>
     ((\<forall>a \<in> set offsets. 0 \<le> a \<and> 3 * a \<le> int (length positions)) \<longrightarrow>
        real (length (points s)) = 3 * x)"
proof -
  let ?a = "offsets ! i"
  have st: "startOffset offsets i = jint ?a"
    using assms(1) by (simp add: startOffset_def jnat_def)
  show ?thesis
  proof (cases "i + 1 < length offsets")
    case True
    let ?b = "offsets ! (i + 1)"
    have e: "endOffset positions offsets i = jint ?b" using True by (simp add: endOffset_def)
    from assms(2) have n: "numPoints s = Fin (real_of_int (?b - ?a))" "2 \<le> ?b - ?a"
      and p: "points s = js_slice positions (jmul (jint ?a) (Fin 3)) (jmul (jint ?b) (Fin 3))"
      by (auto simp: trx_streamline_def st e jsub_def jint_def split: if_splits)
    have "real (length (points s)) = 3 * real_of_int (?b - ?a)"
      if r: "\<forall>a \<in> set offsets. 0 \<le> a \<and> 3 * a \<le> int (length positions)"
    proof -
      have "?a \<in> set offsets" "?b \<in> set offsets" using True by simp_all
      with r have a: "0 \<le> ?a" and b: "3 * ?b \<le> int (length positions)" by blast+
      have ab: "?a \<le> ?b" using n(2) by simp
      have "points s = take (3 * nat (?b - ?a)) (drop (3 * nat ?a) positions)"
        unfolding p using a ab b by (rule js_slice_vertices)
      moreover have "3 * nat (?b - ?a) \<le> length positions - 3 * nat ?a" using a ab b by linarith
      ultimately have "length (points s) = 3 * nat (?b - ?a)" by simp
      then show ?thesis using ab by simp
    qed
    with n show ?thesis by (intro exI[of _ "real_of_int (?b - ?a)"]) simp
  next
    case False
    have e: "endOffset positions offsets i = Fin (real (length positions) / 3)"
      using False by (simp add: endOffset_def jnat_def)
    from assms(2) have n: "numPoints s = Fin (real (length positions) / 3 - real_of_int ?a)"
      "2 \<le> real (length positions) / 3 - real_of_int ?a"
      and p: "points s = js_slice positions (jmul (jint ?a) (Fin 3))
          (jmul (Fin (real (length positions) / 3)) (Fin 3))"
      by (auto simp: trx_streamline_def st e jsub_def jint_def split: if_splits)
    have "real (length (points s)) = 3 * (real (length positions) / 3 - real_of_int ?a)"
      if r: "\<forall>a \<in> set offsets. 0 \<le> a \<and> 3 * a \<le> int (length positions)"
    proof -
      have "?a \<in> set offsets" using assms(1) by simp
      with r have a: "0 \<le> ?a" "3 * ?a \<le> int (length positions)" by blast+
      have "points s = drop (3 * nat ?a) positions"
        unfolding p using a by (rule js_slice_last)
      then have "length (points s) = length positions - 3 * nat ?a" by simp
      moreover have "3 * nat ?a \<le> length positions" using a by linarith
      ultimately have "real (length (points s)) = real (length positions) - 3 * real (nat ?a)"
        by simp
      then show ?thesis using a by simp
    qed
    with n show ?thesis
      by (intro exI[of _ "real (length positions) / 3 - real_of_int ?a"]) simp
  qed
qed

lemma parse_tck_no_datatype:
  "parseTckFile tck_no_datatype = Inr (tck_result [two_origin_points])"
proof -
  have len: "length tck_no_datatype = 51" by (simp add: tck_no_datatype_def)
  show ?thesis
    by (simp add: parseTckFile_def tck_no_datatype_header len MAX_FILE_SIZE_def hasMagic_def
        tck_parseStreamlines_def DATA_TYPES_def tck_no_datatype_loop pushIfLine_def
        two_origin_points_def tck_result_def)
qed

lemma parseTckFile_result:
  assumes "parseTckFile buf = Inr r"
  shows "nCount (header r) = length (streamlines r)"
    and "\<forall>s \<in> set (streamlines r). tck_record_ok s"
proof -
  from assms obtain h sl where h: "tck_parseStreamlines buf h = Inr sl"
    and r: "r = tck_result sl"
    by (auto simp: parseTckFile_def tck_result_def split: if_splits sum.splits)
  show "nCount (header r) = length (streamlines r)" by (simp add: r tck_result_def)
  show "\<forall>s \<in> set (streamlines r). tck_record_ok s"
    using tck_parseStreamlines_inv[where buf = buf and h = h] h by (simp add: r tck_result_def)
qed

lemma parseTrkFile_result:
  assumes "parseTrkFile buf = Inr t"
  shows "trk_parseHeader buf = Inr (trk_header t)"
    and "trk_nCount (trk_header t) = toSigned 32 (uintAt 4 True buf 988)"
    and "\<forall>s \<in> set (trk_streamlines t). trk_record_ok s"
    and "0 < trk_nCount (trk_header t) \<longrightarrow> int (length (trk_streamlines t)) \<le> trk_nCount (trk_header t)"
proof -
  from assms obtain h where h: "length buf \<le> MAX_FILE_SIZE" "trk_parseHeader buf = Inr h"
    "take 5 (idString h) = ''TRACK''" "validateTrkHeader h = Inr ()"
    by (auto simp: parseTrkFile_def split: if_splits sum.splits)
  from parseTrkFile_valid[OF h] obtain sl where
    sl: "parseTrkFile buf = Inr \<lparr>trk_header = h, trk_streamlines = sl\<rparr>"
      "\<forall>s \<in> set sl. trk_record_ok s" "0 < trk_nCount h \<longrightarrow> int (length sl) \<le> trk_nCount h"
    by blast
  then have t: "t = \<lparr>trk_header = h, trk_streamlines = sl\<rparr>" using assms by simp
  show "trk_parseHeader buf = Inr (trk_header t)" using h(2) by (simp add: t)
  show "trk_nCount (trk_header t) = toSigned 32 (uintAt 4 True buf 988)"
    using h(2) by (auto simp: t trk_parseHeader_def split: if_splits)
  show "\<forall>s \<in> set (trk_streamlines t). trk_record_ok s" using sl(2) by (simp add: t)
  show "0 < trk_nCount (trk_header t) \<longrightarrow> int (length (trk_streamlines t)) \<le> trk_nCount (trk_header t)"
    using sl(3) by (simp add: t)
qed

lemma in_map_filter:
  "s \<in> set (List.map_filter f xs) \<Longrightarrow> \<exists>x \<in> set xs. f x = Some s"
  by (induction xs) (auto split: option.splits)

lemma buildStreamlines_in_range:
  assumes "nb \<le> length offsets" "s \<in> set (buildStreamlines positions offsets nb)"
  shows "\<exists>x. 2 \<le> x \<and> numPoints s = Fin x \<and>
     ((\<forall>a \<in> set offsets. 0 \<le> a \<and> 3 * a \<le> int (length positions)) \<longrightarrow>
        real (length (points s)) = 3 * x)"
proof -
  have "buildStreamlines positions offsets nb =
      List.map_filter (trx_streamline positions offsets) [0..<nb]"
    using build_loop_map_filter[OF refl, of positions offsets nb 0 "[]"]
    by (simp add: buildStreamlines_def)
  with assms(2) obtain i where i: "i < nb" "trx_streamline positions offsets i = Some s"
    using in_map_filter[of s "trx_streamline positions offsets" "[0..<nb]"] by auto
  then have "i + 1 \<le> length offsets" using assms(1) by simp
  then show ?thesis using i(2) by (rule trx_streamline_in_range)
qed

text \<open>
  C1 (as stated, it fails). A TRK file whose header declares five streamlines and whose
  body is empty decodes to no streamline, and the header that \<open>parseTrkFile\<close> returns
  still says five.
\<close>

theorem trk_nCount_is_the_declared_count:
  "parseTrkFile trk_declares_five =
     Inr \<lparr>trk_header = plain_header 0 5 1000, trk_streamlines = []\<rparr> \<and>
   trk_nCount (plain_header 0 5 1000) = 5 \<and>
   length ([] :: streamline list) = 0"
  by (simp add: parse_declares_five)

text \<open>
  C1 (amended). A result of \<open>parseTckFile\<close> or of \<open>parseTrxFile\<close> has, in its unified
  header, \<open>nCount\<close> equal to the number of streamlines it returns. \<open>parseTrkFile\<close> returns
  the header of the file as decoded: its \<open>nCount\<close> is the count that the file declares at
  byte 988, and when that is positive no more streamlines than it are returned.
\<close>

theorem nCount_of_a_result:
  "(parseTckFile buf = Inr r \<longrightarrow> nCount (header r) = length (streamlines r)) \<and>
   (parseTrxFile inflate jsonParse buf = Inr r \<longrightarrow> nCount (header r) = length (streamlines r)) \<and>
   (parseTrkFile buf = Inr t \<longrightarrow>
      trk_parseHeader buf = Inr (trk_header t) \<and>
      trk_nCount (trk_header t) = toSigned 32 (uintAt 4 True buf 988) \<and>
      (0 < trk_nCount (trk_header t) \<longrightarrow>
         int (length (trk_streamlines t)) \<le> trk_nCount (trk_header t)))"
  using parseTckFile_result(1)[of buf r] parseTrxFile_result(1)[of inflate jsonParse buf r]
    parseTrkFile_result(1,2,4)[of buf t]
  by blast

theorem nCount_of_a_result_witness:
  "nCount (header (tck_result [two_origin_points])) = 1 \<and>
   nCount (header trx_result) = length (streamlines trx_result) \<and>
   trk_parseHeader trk_declares_five = Inr (plain_header 0 5 1000) \<and>
   toSigned 32 (uintAt 4 True trk_declares_five 988) = 5"
  using nCount_of_a_result[of tck_no_datatype "tck_result [two_origin_points]" no_inflate
      parse_header_text
      "\<lparr>trk_header = plain_header 0 5 1000, trk_streamlines = []\<rparr>"]
    nCount_of_a_result[of trx_archive trx_result no_inflate parse_header_text
      "\<lparr>trk_header = plain_header 0 5 1000, trk_streamlines = []\<rparr>"]
    nCount_of_a_result[of trk_declares_five trx_result no_inflate parse_header_text
      "\<lparr>trk_header = plain_header 0 5 1000, trk_streamlines = []\<rparr>"]
  by (simp add: parse_tck_no_datatype parse_trx_archive parse_declares_five tck_result_def)

text \<open>
  Two inputs of \<open>buildStreamlines\<close> outside the conditions of the statement on TRX below.
  With an offset past the positions the slice is cut at the end of the positions: one
  vertex is returned with \<open>numPoints\<close> 5. With more streamlines declared than there are
  offsets, \<open>Number(offsets[i])\<close> is NaN, which the test \<open>numPoints < 2\<close> lets through: the
  second streamline has \<open>numPoints\<close> NaN and all the positions.
\<close>

lemma buildStreamlines_outside_the_arrays:
  "buildStreamlines [Fin 0, Fin 0, Fin 0] [0, 5] 1 =
     [\<lparr>points = [Fin 0, Fin 0, Fin 0], numPoints = Fin 5, scalars = None, properties = None\<rparr>] \<and>
   buildStreamlines (replicate 6 (Fin 0)) [0] 2 =
     [\<lparr>points = replicate 6 (Fin 0), numPoints = Fin 2, scalars = None, properties = None\<rparr>,
      \<lparr>points = replicate 6 (Fin 0), numPoints = NaN, scalars = None, properties = None\<rparr>]"
proof -
  have up: "[0..<2] = [0, Suc 0]" by (simp add: upt_conv_Cons)
  have a: "buildStreamlines [Fin 0, Fin 0, Fin 0] [0, 5] 1 =
     [\<lparr>points = [Fin 0, Fin 0, Fin 0], numPoints = Fin 5, scalars = None, properties = None\<rparr>]"
    using build_loop_map_filter[OF refl, of "[Fin 0, Fin 0, Fin 0]" "[0, 5]" 1 0 "[]"]
    by (simp add: buildStreamlines_def)
       (simp add: trx_streamline_def startOffset_def endOffset_def jsub_def jnat_def jint_def
          js_slice_def trunc_def)
  have b: "buildStreamlines (replicate 6 (Fin 0)) [0] 2 =
     [\<lparr>points = replicate 6 (Fin 0), numPoints = Fin 2, scalars = None, properties = None\<rparr>,
      \<lparr>points = replicate 6 (Fin 0), numPoints = NaN, scalars = None, properties = None\<rparr>]"
    using build_loop_map_filter[OF refl, of "replicate 6 (Fin 0)" "[0]" 2 0 "[]"]
    by (simp add: buildStreamlines_def up)
       (simp add: trx_streamline_def startOffset_def endOffset_def jsub_def jnat_def jint_def
          js_slice_def trunc_def)
  from a b show ?thesis by simp
qed

text \<open>
  C2 (as stated, it fails). A TRK file with one record of one point decodes to a
  streamline of one point.
\<close>

theorem trk_keeps_a_single_point:
  "parseTrkFile trk_one_point =
     Inr \<lparr>trk_header = plain_header 0 0 1000, trk_streamlines = [origin_point]\<rparr> \<and>
   numPoints origin_point = Fin 1 \<and> length (points origin_point) = 3"
  by (simp add: parse_one_point) (simp add: origin_point_def)

text \<open>
  C2 (amended). Every streamline that \<open>parseTckFile\<close> returns has at least 2 points, and
  three coordinates for each. The streamlines that \<open>parseTrxFile\<close> returns are those that
  \<open>buildStreamlines\<close> makes of the decoded positions and offsets and of the declared
  number of streamlines; when that number does not exceed the number of offsets, every one
  of them has a point count \<open>numPoints\<close>, which is \<open>end - start\<close>, of at least 2, and when
  moreover every offset is a vertex index within the positions its points array holds
  three coordinates for each of these points. Every streamline that \<open>parseTrkFile\<close>
  returns has between 1 and 100000 points, and three coordinates for each.
\<close>

theorem point_counts_of_a_result:
  "(parseTckFile buf = Inr r \<longrightarrow> (\<forall>s \<in> set (streamlines r). tck_record_ok s)) \<and>
   (parseTrxFile inflate jsonParse buf = Inr r \<longrightarrow>
      (\<exists>entries he obj th pe oe ps os.
         parseZipEntries inflate buf = Inr entries \<and>
         find isHeaderEntry entries = Some he \<and> jsonParse (data he) = Some obj \<and>
         validateTrxHeader obj = Inr th \<and>
         find isPositionsEntry entries = Some pe \<and> find isOffsetsEntry entries = Some oe \<and>
         parsePositions (name pe) (data pe) = Inr ps \<and>
         parseOffsets (name oe) (data oe) = Inr os \<and>
         streamlines r = buildStreamlines ps os (NB_STREAMLINES th))) \<and>
   (nb \<le> length offsets \<longrightarrow>
      (\<forall>s \<in> set (buildStreamlines positions offsets nb).
         \<exists>x. 2 \<le> x \<and> numPoints s = Fin x \<and>
           ((\<forall>a \<in> set offsets. 0 \<le> a \<and> 3 * a \<le> int (length positions)) \<longrightarrow>
              real (length (points s)) = 3 * x))) \<and>
   (parseTrkFile buf = Inr t \<longrightarrow> (\<forall>s \<in> set (trk_streamlines t). trk_record_ok s))"
proof (intro conjI impI ballI)
  fix s
  assume "parseTckFile buf = Inr r" "s \<in> set (streamlines r)"
  then show "tck_record_ok s" using parseTckFile_result(2)[of buf r] by blast
next
  assume "parseTrxFile inflate jsonParse buf = Inr r"
  then show "\<exists>entries he obj th pe oe ps os.
         parseZipEntries inflate buf = Inr entries \<and>
         find isHeaderEntry entries = Some he \<and> jsonParse (data he) = Some obj \<and>
         validateTrxHeader obj = Inr th \<and>
         find isPositionsEntry entries = Some pe \<and> find isOffsetsEntry entries = Some oe \<and>
         parsePositions (name pe) (data pe) = Inr ps \<and>
         parseOffsets (name oe) (data oe) = Inr os \<and>
         streamlines r = buildStreamlines ps os (NB_STREAMLINES th)"
    by (rule parseTrxFile_pipeline)
next
  fix s
  assume "nb \<le> length offsets" "s \<in> set (buildStreamlines positions offsets nb)"
  then show "\<exists>x. 2 \<le> x \<and> numPoints s = Fin x \<and>
           ((\<forall>a \<in> set offsets. 0 \<le> a \<and> 3 * a \<le> int (length positions)) \<longrightarrow>
              real (length (points s)) = 3 * x)"
    by (rule buildStreamlines_in_range)
next
  fix s
  assume "parseTrkFile buf = Inr t" "s \<in> set (trk_streamlines t)"
  then show "trk_record_ok s" using parseTrkFile_result(3)[of buf t] by blast
qed

theorem point_counts_of_a_result_witness:
  "tck_record_ok two_origin_points \<and>
   streamlines trx_result = buildStreamlines (replicate 12 (Fin 0)) [0, 2] 2 \<and>
   (\<exists>x. 2 \<le> x \<and> numPoints two_origin_vertices = Fin x \<and>
      real (length (points two_origin_vertices)) = 3 * x) \<and>
   trk_record_ok origin_point"
proof -
  let ?t = "\<lparr>trk_header = plain_header 0 0 1000, trk_streamlines = [origin_point]\<rparr>"
  have a: "tck_record_ok two_origin_points"
    using point_counts_of_a_result[of tck_no_datatype "tck_result [two_origin_points]" no_inflate
      parse_header_text 2 "[0, 2]" "replicate 12 (Fin 0)" ?t]
    by (simp add: parse_tck_no_datatype tck_result_def)
  have b: "streamlines trx_result = buildStreamlines (replicate 12 (Fin 0)) [0, 2] 2"
    using point_counts_of_a_result[of trx_archive trx_result no_inflate
      parse_header_text 2 "[0, 2]" "replicate 12 (Fin 0)" ?t]
    by (auto simp: parse_trx_archive zip_entries isHeaderEntry_def isPositionsEntry_def
        isOffsetsEntry_def startsWith_def endsWith_def parse_header_text_def trx_json_valid
        positions_decoded offsets_decoded)
  have c: "\<exists>x. 2 \<le> x \<and> numPoints two_origin_vertices = Fin x \<and>
      real (length (points two_origin_vertices)) = 3 * x"
    using point_counts_of_a_result[of trx_archive trx_result no_inflate
      parse_header_text 2 "[0, 2]" "replicate 12 (Fin 0)" ?t]
    by (simp add: two_built)
  have d: "trk_record_ok origin_point"
    using point_counts_of_a_result[of trk_one_point trx_result no_inflate
      parse_header_text 2 "[0, 2]" "replicate 12 (Fin 0)" ?t]
    by (simp add: parse_one_point)
  from a b c d show ?thesis by simp
qed

end
